theory Spec2Isabelle
  imports Complex_Main
begin

section \<open>Python values the script relies on\<close>

text \<open>
  The script \<^verbatim>\<open>examine_3d-tile.py\<close> is embedded function by function. Exceptions are
  values of \<open>error\<close>; a function that can raise returns \<open>error + 'a\<close> with \<open>Inl\<close>
  for the exception. Python floats are idealised as real numbers: their rounding is not
  modelled, and every concrete input used below is a small dyadic number on which binary
  floating point computes exactly what the reals do. The 32-bit components of a
  \<^verbatim>\<open>mathutils.Vector\<close> are rounded (\<open>f32\<close> below).
\<close>

datatype error =
    ValueError | IndexError | ZeroDivisionError | UnboundLocalError
  | TypeError | KeyError | FileNotFoundError | RecursionError

text \<open>A loop body that may raise, run over a list: the first exception ends the loop.\<close>

fun fold_err :: "('a \<Rightarrow> 's \<Rightarrow> error + 's) \<Rightarrow> 'a list \<Rightarrow> 's \<Rightarrow> error + 's" where
  "fold_err f [] s = Inr s"
| "fold_err f (x # xs) s = (case f x s of Inl e \<Rightarrow> Inl e | Inr s' \<Rightarrow> fold_err f xs s')"

text \<open>\<^verbatim>\<open>int(x)\<close> on a float truncates toward zero.\<close>

definition py_int :: "real \<Rightarrow> int" where
  "py_int x = (if 0 \<le> x then \<lfloor>x\<rfloor> else \<lceil>x\<rceil>)"

text \<open>\<^verbatim>\<open>range(a, b)\<close>.\<close>

definition py_range :: "int \<Rightarrow> int \<Rightarrow> int list" where
  "py_range a b = [a..b - 1]"

text \<open>\<^verbatim>\<open>min(...)\<close> and \<^verbatim>\<open>max(...)\<close> over a generator raise ValueError when it is empty.\<close>

definition py_min :: "real list \<Rightarrow> error + real" where
  "py_min xs = (case xs of [] \<Rightarrow> Inl ValueError | y # ys \<Rightarrow> Inr (fold min ys y))"

definition py_max :: "real list \<Rightarrow> error + real" where
  "py_max xs = (case xs of [] \<Rightarrow> Inl ValueError | y # ys \<Rightarrow> Inr (fold max ys y))"

text \<open>
  List indexing \<^verbatim>\<open>xs[i]\<close>: a negative index counts from the end, anything outside
  \<open>-len \<dots> len - 1\<close> raises IndexError.
\<close>

definition py_index :: "nat \<Rightarrow> int \<Rightarrow> error + nat" where
  "py_index n i =
     (if 0 \<le> i \<and> i < int n then Inr (nat i)
      else if - int n \<le> i \<and> i < 0 then Inr (nat (int n + i))
      else Inl IndexError)"

text \<open>True division \<^verbatim>\<open>a / b\<close>.\<close>

definition py_div :: "real \<Rightarrow> real \<Rightarrow> error + real" where
  "py_div a b = (if b = 0 then Inl ZeroDivisionError else Inr (a / b))"

text \<open>
  A \<^verbatim>\<open>mathutils.Vector\<close> stores its components as 32-bit floats. \<open>f32\<close> rounds a number to
  the nearest such float, ties to the even significand: 24 significant bits, the least
  exponent \<open>-126\<close> (below it the spacing stays \<open>2 powr -149\<close>); numbers beyond the range of
  32-bit floats are not modelled.
\<close>

definition round_even :: "real \<Rightarrow> int" where
  "round_even x =
     (let f = \<lfloor>x\<rfloor>; d = x - of_int f
      in if d < 1 / 2 then f else if 1 / 2 < d then f + 1 else if even f then f else f + 1)"

definition ulp32 :: "real \<Rightarrow> real" where
  "ulp32 x = 2 powr (of_int (max \<lfloor>log 2 \<bar>x\<bar>\<rfloor> (- 126)) - 23)"

definition f32 :: "real \<Rightarrow> real" where
  "f32 x = (if x = 0 then 0 else of_int (round_even (x / ulp32 x)) * ulp32 x)"

definition vector :: "real \<Rightarrow> real \<Rightarrow> real \<times> real" where
  "vector x y = (f32 x, f32 y)"

text \<open>
  A Python \<^verbatim>\<open>str\<close> is a sequence of Unicode code points. \<open>str\<close> is the value of a string
  literal of the script, all of which are ASCII. The keys of the dictionaries the script
  builds are such literals and stay Isabelle strings.
\<close>

type_synonym pystr = "nat list"

definition str :: "string \<Rightarrow> pystr" where
  "str s = map of_char s"

section \<open>Graphic processing\<close>

subsection \<open>The mesh object handed over by Blender\<close>

text \<open>
  A UV coordinate is a \<^verbatim>\<open>Vector\<close> with \<open>x\<close> and \<open>y\<close>. A face carries what the script
  reads from it: \<^verbatim>\<open>face.calc_area()\<close> (never negative) and the UV coordinate of each
  of its loops. The object carries whether \<^verbatim>\<open>bm.loops.layers.uv.active\<close> exists, the
  nodes of the active material's node tree (\<open>None\<close> when there is no active material or
  no node tree), its faces and the lengths of its edges.
\<close>

type_synonym uv = "real \<times> real"

record face =
  face_area :: real
  uv_coords :: "uv list"

record node =
  node_type :: string
  node_image :: "(int \<times> int) option"

record mesh_obj =
  uv_layer :: bool
  material_nodes :: "node list option"
  faces :: "face list"
  edge_lengths :: "real list"

subsection \<open>\<open>point_in_triangle_uv\<close>\<close>

definition sign :: "uv \<Rightarrow> uv \<Rightarrow> uv \<Rightarrow> real" where
  "sign p1 p2 p3 = (fst p1 - fst p3) * (snd p2 - snd p3) - (fst p2 - fst p3) * (snd p1 - snd p3)"

definition point_in_triangle_uv :: "uv \<Rightarrow> uv list \<Rightarrow> error + bool" where
  "point_in_triangle_uv p triangle =
     (case triangle of
        t0 # t1 # t2 # _ \<Rightarrow>
          (let d1 = sign p t0 t1;
               d2 = sign p t1 t2;
               d3 = sign p t2 t0;
               has_neg = (d1 < 0 \<or> d2 < 0 \<or> d3 < 0);
               has_pos = (d1 > 0 \<or> d2 > 0 \<or> d3 > 0)
           in Inr (\<not> (has_neg \<and> has_pos)))
      | _ \<Rightarrow> Inl IndexError)"

subsection \<open>\<open>calculate_texel_sizes_and_utilization\<close>\<close>

text \<open>The first \<^verbatim>\<open>TEX_IMAGE\<close> node that has an image gives the texture's size.\<close>

definition find_image :: "mesh_obj \<Rightarrow> (int \<times> int) option" where
  "find_image obj =
     (case material_nodes obj of
        None \<Rightarrow> None
      | Some nodes \<Rightarrow>
          (case List.find (\<lambda>n. node_type n = ''TEX_IMAGE'' \<and> node_image n \<noteq> None) nodes of
             None \<Rightarrow> None
           | Some n \<Rightarrow> node_image n))"

text \<open>\<^verbatim>\<open>grid_resolution = int(max(image_width, image_height) * fraction)\<close> with
  \<^verbatim>\<open>fraction = 0.5\<close>.\<close>

definition fraction :: real where
  "fraction = 1 / 2"

definition grid_resolution :: "int \<Rightarrow> int \<Rightarrow> int" where
  "grid_resolution image_width image_height =
     py_int (real_of_int (max image_width image_height) * fraction)"

type_synonym grid = "int list list"

definition new_grid :: "int \<Rightarrow> grid" where
  "new_grid res = replicate (nat res) (replicate (nat res) 0)"

text \<open>
  The body of the two nested sampling loops for one sample \<open>(u, v)\<close>: the state is the
  shared grid and the face's \<^verbatim>\<open>pixel_count\<close>. The sample point is a \<^verbatim>\<open>Vector\<close>, so its
  components are the quotients rounded to 32-bit floats. (Python forms each quotient as a
  double first; for a grid resolution below \<open>2 ^ 28\<close> rounding that double gives the 32-bit
  float nearest to the exact quotient.)
\<close>

definition sample_cell :: "int \<Rightarrow> uv list \<Rightarrow> int \<Rightarrow> int \<Rightarrow> grid \<times> nat \<Rightarrow> error + grid \<times> nat" where
  "sample_cell res tri u v st =
     (case py_div (real_of_int u) (real_of_int res) of
        Inl e \<Rightarrow> Inl e
      | Inr pu \<Rightarrow>
     (case py_div (real_of_int v) (real_of_int res) of
        Inl e \<Rightarrow> Inl e
      | Inr pv \<Rightarrow>
     (case point_in_triangle_uv (vector pu pv) tri of
        Inl e \<Rightarrow> Inl e
      | Inr inside \<Rightarrow>
          if inside then
            (case py_index (length (fst st)) v of
               Inl e \<Rightarrow> Inl e
             | Inr r \<Rightarrow>
            (case py_index (length (fst st ! r)) u of
               Inl e \<Rightarrow> Inl e
             | Inr c \<Rightarrow>
                 if fst st ! r ! c = 0
                 then Inr ((fst st)[r := (fst st ! r)[c := 1]], snd st + 1)
                 else Inr st))
          else Inr st)))"

text \<open>The sampling loops of one face, from its UV bounding box.\<close>

definition sample_face :: "int \<Rightarrow> uv list \<Rightarrow> grid \<Rightarrow> error + grid \<times> nat" where
  "sample_face res uvs g =
     (case py_min (map fst uvs) of Inl e \<Rightarrow> Inl e | Inr min_u \<Rightarrow>
     (case py_max (map fst uvs) of Inl e \<Rightarrow> Inl e | Inr max_u \<Rightarrow>
     (case py_min (map snd uvs) of Inl e \<Rightarrow> Inl e | Inr min_v \<Rightarrow>
     (case py_max (map snd uvs) of Inl e \<Rightarrow> Inl e | Inr max_v \<Rightarrow>
        fold_err
          (\<lambda>u. fold_err (sample_cell res uvs u)
             (py_range (py_int (min_v * real_of_int res))
                (min (py_int (max_v * real_of_int res) + 1) res)))
          (py_range (py_int (min_u * real_of_int res))
             (min (py_int (max_u * real_of_int res) + 1) res))
          (g, 0)))))"

text \<open>
  \<^verbatim>\<open>(face_area / (pixel_count * (image_width / grid_resolution) *
  (image_height / grid_resolution))) ** 0.5\<close>. Face areas are never negative, so the
  power is the square root.
\<close>

definition texel_size :: "int \<Rightarrow> int \<Rightarrow> int \<Rightarrow> real \<Rightarrow> nat \<Rightarrow> error + real" where
  "texel_size res image_width image_height area pixel_count =
     (case py_div (real_of_int image_width) (real_of_int res) of Inl e \<Rightarrow> Inl e | Inr cw \<Rightarrow>
     (case py_div (real_of_int image_height) (real_of_int res) of Inl e \<Rightarrow> Inl e | Inr ch \<Rightarrow>
     (case py_div area (real pixel_count * cw * ch) of Inl e \<Rightarrow> Inl e | Inr q \<Rightarrow>
        Inr (sqrt q))))"

text \<open>One iteration of \<^verbatim>\<open>for face in bm.faces\<close>: the state is the grid and
  \<^verbatim>\<open>texel_sizes\<close>.\<close>

definition face_step :: "int \<Rightarrow> int \<Rightarrow> int \<Rightarrow> face \<Rightarrow> grid \<times> real list \<Rightarrow> error + grid \<times> real list" where
  "face_step res image_width image_height f st =
     (case sample_face res (uv_coords f) (fst st) of
        Inl e \<Rightarrow> Inl e
      | Inr (g', pixel_count) \<Rightarrow>
          if pixel_count > 0 then
            (case texel_size res image_width image_height (face_area f) pixel_count of
               Inl e \<Rightarrow> Inl e
             | Inr t \<Rightarrow> Inr (g', snd st @ [t]))
          else Inr (g', snd st))"

definition rasterize :: "int \<Rightarrow> int \<Rightarrow> face list \<Rightarrow> error + grid \<times> real list" where
  "rasterize image_width image_height fs =
     fold_err (face_step (grid_resolution image_width image_height) image_width image_height) fs
       (new_grid (grid_resolution image_width image_height), [])"

definition used_pixels :: "grid \<Rightarrow> int" where
  "used_pixels g = sum_list (map sum_list g)"

definition total_pixels :: "int \<Rightarrow> int" where
  "total_pixels res = res * res"

text \<open>
  The function returns a pair on its two early exits and a triple at its end.
\<close>

datatype texel_result =
    Pair2 "real list" int
  | Triple3 "real list" real int

definition calculate_texel_sizes_and_utilization :: "mesh_obj \<Rightarrow> error + texel_result" where
  "calculate_texel_sizes_and_utilization obj =
     (if \<not> uv_layer obj then Inr (Pair2 [] 0)
      else case find_image obj of
        None \<Rightarrow> Inr (Pair2 [] 0)
      | Some (image_width, image_height) \<Rightarrow>
          (case rasterize image_width image_height (faces obj) of
             Inl e \<Rightarrow> Inl e
           | Inr (g, texel_sizes) \<Rightarrow>
               (case py_div (real_of_int (used_pixels g))
                       (real_of_int (total_pixels (grid_resolution image_width image_height))) of
                  Inl e \<Rightarrow> Inl e
                | Inr texture_utilization \<Rightarrow>
                    Inr (Triple3 texel_sizes texture_utilization image_width))))"

subsection \<open>\<open>calculate_statistics\<close>\<close>

text \<open>
  \<^verbatim>\<open>np.mean\<close>, \<^verbatim>\<open>np.median\<close> and \<^verbatim>\<open>np.std\<close>; \<open>None\<close> stands for the NaN that numpy
  returns on an empty list.
\<close>

definition np_mean :: "real list \<Rightarrow> real option" where
  "np_mean xs = (if xs = [] then None else Some (sum_list xs / real (length xs)))"

definition np_median :: "real list \<Rightarrow> real option" where
  "np_median xs =
     (if xs = [] then None
      else let s = sort xs; n = length xs
           in if odd n then Some (s ! (n div 2))
              else Some ((s ! (n div 2 - 1) + s ! (n div 2)) / 2))"

definition np_std :: "real list \<Rightarrow> real option" where
  "np_std xs =
     (case np_mean xs of
        None \<Rightarrow> None
      | Some m \<Rightarrow> Some (sqrt (sum_list (map (\<lambda>x. (x - m)\<^sup>2) xs) / real (length xs))))"

record tile_stats =
  avg_texel_size :: "real option"
  median_texel_size :: "real option"
  std_dev_texel_size :: "real option"
  texture_utilization :: real
  texture_width :: int
  avg_polygon_edge_length :: "real option"
  median_polygon_edge_length :: "real option"
  std_dev_polygon_edge_length :: "real option"
  total_polygons :: int

text \<open>
  The call's result is unpacked into three names, which raises ValueError when the
  callee returned a pair. \<open>Inr None\<close> is the function's \<^verbatim>\<open>return None\<close>.
\<close>

definition calculate_statistics :: "mesh_obj \<Rightarrow> error + tile_stats option" where
  "calculate_statistics obj =
     (case calculate_texel_sizes_and_utilization obj of
        Inl e \<Rightarrow> Inl e
      | Inr (Pair2 sizes utilization) \<Rightarrow> Inl ValueError
      | Inr (Triple3 sizes utilization width) \<Rightarrow>
          if sizes = [] then Inr None
          else Inr (Some \<lparr>
            avg_texel_size = np_mean sizes,
            median_texel_size = np_median sizes,
            std_dev_texel_size = np_std sizes,
            texture_utilization = utilization,
            texture_width = width,
            avg_polygon_edge_length = np_mean (edge_lengths obj),
            median_polygon_edge_length = np_median (edge_lengths obj),
            std_dev_polygon_edge_length = np_std (edge_lengths obj),
            total_polygons = int (length (faces obj)) \<rparr>))"

subsection \<open>\<open>process_glb_file\<close>\<close>

text \<open>
  The Mesh Loader is outside the script: \<open>is_file\<close> is \<^verbatim>\<open>os.path.isfile\<close>, and
  \<open>import_gltf\<close> gives the objects of the scene after the import, or \<open>None\<close> when the
  importer raises RuntimeError (the only exception the function catches).
\<close>

datatype scene_obj = Mesh mesh_obj | Other

record loader =
  is_file :: "pystr \<Rightarrow> bool"
  import_gltf :: "pystr \<Rightarrow> scene_obj list option"

text \<open>The function returns \<^verbatim>\<open>None\<close>, the empty dictionary it starts from, or the
  statistics of the first mesh.\<close>

datatype glb_stats = StatsNone | StatsEmpty | Stats tile_stats

fun first_mesh :: "scene_obj list \<Rightarrow> mesh_obj option" where
  "first_mesh [] = None"
| "first_mesh (Mesh m # objs) = Some m"
| "first_mesh (Other # objs) = first_mesh objs"

definition process_glb_file :: "loader \<Rightarrow> pystr \<Rightarrow> error + glb_stats" where
  "process_glb_file ld glb_file_path =
     (if \<not> is_file ld glb_file_path then Inr StatsNone
      else case import_gltf ld glb_file_path of
        None \<Rightarrow> Inr StatsNone
      | Some objs \<Rightarrow>
          (case first_mesh objs of
             None \<Rightarrow> Inr StatsEmpty
           | Some obj \<Rightarrow>
               (case calculate_statistics obj of
                  Inl e \<Rightarrow> Inl e
                | Inr None \<Rightarrow> Inr StatsNone
                | Inr (Some st) \<Rightarrow> Inr (Stats st))))"

section \<open>Tileset traversal\<close>

subsection \<open>Strings and paths\<close>

text \<open>\<^verbatim>\<open>s.endswith(suf)\<close> and \<^verbatim>\<open>sub in s\<close>.\<close>

definition endswith :: "pystr \<Rightarrow> pystr \<Rightarrow> bool" where
  "endswith s suf = (take (length suf) (rev s) = rev suf)"

fun contains :: "pystr \<Rightarrow> pystr \<Rightarrow> bool" where
  "contains [] sub = (sub = [])"
| "contains (c # cs) sub = (take (length sub) (c # cs) = sub \<or> contains cs sub)"

text \<open>\<^verbatim>\<open>os.path.join(a, b)\<close> and \<^verbatim>\<open>os.path.dirname(p)\<close> as \<^verbatim>\<open>posixpath\<close> defines them.\<close>

definition path_join :: "pystr \<Rightarrow> pystr \<Rightarrow> pystr" where
  "path_join a b =
     (if take 1 b = str ''/'' then b
      else if a = [] \<or> endswith a (str ''/'') then a @ b
      else a @ str ''/'' @ b)"

definition dirname :: "pystr \<Rightarrow> pystr" where
  "dirname p =
     (let head = rev (dropWhile (\<lambda>c. c \<noteq> of_char CHR ''/'') (rev p))
      in if head \<noteq> [] \<and> \<not> list_all (\<lambda>c. c = of_char CHR ''/'') head
         then rev (dropWhile (\<lambda>c. c = of_char CHR ''/'') (rev head))
         else head)"

subsection \<open>The pattern of an implicit tile\<close>

text \<open>
  \<^verbatim>\<open>re.compile(r'tiles/(\d+)/(\d+)/(\d+)/(\d+)\.glb')\<close>, applied with \<^verbatim>\<open>pattern.match\<close>:
  the match is anchored at the start of the path and not at its end. The pattern is a
  \<^verbatim>\<open>str\<close> pattern compiled without \<^verbatim>\<open>re.ASCII\<close>, so \<^verbatim>\<open>\d\<close> matches every Unicode decimal
  digit (the characters of category Nd), and \<^verbatim>\<open>int(group)\<close> converts a group by the
  decimal values of its characters. The ASCII characters \<^verbatim>\<open>0\<close> to \<^verbatim>\<open>9\<close> are digits with
  their values and no other ASCII character is one; beyond ASCII the digits are those of
  the Unicode database of the interpreter, a table from a code point to its decimal value
  that the model takes as a parameter. Each group \<^verbatim>\<open>(\d+)\<close> is followed by \<^verbatim>\<open>/\<close> or
  \<^verbatim>\<open>.\<close>, which is no digit, so the group is the longest run of digits and must not be
  empty.
\<close>

type_synonym unicode_table = "nat \<Rightarrow> nat option"

definition to_decimal :: "unicode_table \<Rightarrow> nat \<Rightarrow> nat option" where
  "to_decimal db c =
     (if of_char CHR ''0'' \<le> c \<and> c \<le> of_char CHR ''9'' then Some (c - of_char CHR ''0'')
      else if c < 128 then None
      else db c)"

definition is_digit :: "unicode_table \<Rightarrow> nat \<Rightarrow> bool" where
  "is_digit db c = (to_decimal db c \<noteq> None)"

definition match_lit :: "pystr \<Rightarrow> pystr \<Rightarrow> pystr option" where
  "match_lit lit s = (if take (length lit) s = lit then Some (drop (length lit) s) else None)"

definition match_digits :: "unicode_table \<Rightarrow> pystr \<Rightarrow> (pystr \<times> pystr) option" where
  "match_digits db s =
     (if takeWhile (is_digit db) s = [] then None
      else Some (takeWhile (is_digit db) s, dropWhile (is_digit db) s))"

definition pattern_match ::
  "unicode_table \<Rightarrow> pystr \<Rightarrow> (pystr \<times> pystr \<times> pystr \<times> pystr) option" where
  "pattern_match db s =
     (case match_lit (str ''tiles/'') s of None \<Rightarrow> None | Some s0 \<Rightarrow>
     (case match_digits db s0 of None \<Rightarrow> None | Some (level, s1) \<Rightarrow>
     (case match_lit (str ''/'') s1 of None \<Rightarrow> None | Some s2 \<Rightarrow>
     (case match_digits db s2 of None \<Rightarrow> None | Some (x, s3) \<Rightarrow>
     (case match_lit (str ''/'') s3 of None \<Rightarrow> None | Some s4 \<Rightarrow>
     (case match_digits db s4 of None \<Rightarrow> None | Some (y, s5) \<Rightarrow>
     (case match_lit (str ''/'') s5 of None \<Rightarrow> None | Some s6 \<Rightarrow>
     (case match_digits db s6 of None \<Rightarrow> None | Some (z, s7) \<Rightarrow>
     (case match_lit (str ''.glb'') s7 of None \<Rightarrow> None | Some s8 \<Rightarrow>
        Some (level, x, y, z))))))))))"

text \<open>\<^verbatim>\<open>int(group)\<close> on a group of the match, a string of digits.\<close>

definition int_of_digits :: "unicode_table \<Rightarrow> pystr \<Rightarrow> int" where
  "int_of_digits db ds = foldl (\<lambda>n c. 10 * n + int (the (to_decimal db c))) 0 ds"

subsection \<open>Documents, the file system and descriptors\<close>

text \<open>
  A node of a tileset document, with the keys the traversal reads: \<^verbatim>\<open>content\<close> (with
  \<^verbatim>\<open>uri\<close> and \<^verbatim>\<open>url\<close>), \<^verbatim>\<open>geometricError\<close> and \<^verbatim>\<open>children\<close>; \<open>None\<close> is an absent
  key. A document has an optional \<^verbatim>\<open>root\<close>.
\<close>

record tile_content =
  uri :: "pystr option"
  url :: "pystr option"

datatype tile =
  Tile (content: "tile_content option") (geometricError: "real option")
    (children: "tile list option")

datatype tileset_data = Tileset (root_tile: "tile option")

text \<open>The tile \<^verbatim>\<open>{}\<close> that \<^verbatim>\<open>.get('root', {})\<close> falls back to.\<close>

definition empty_tile :: tile where
  "empty_tile = Tile None None None"

text \<open>
  What the traversal asks of the file system: \<open>read_tileset\<close> opens and parses a document
  (\<open>None\<close> when it cannot be opened), \<open>walk\<close> is \<^verbatim>\<open>os.walk\<close> (the directory and the files
  of each directory visited, in order) and \<open>relpath\<close> is \<^verbatim>\<open>os.path.relpath\<close>, which depends
  on the working directory. \<open>decimal\<close> is the Unicode database of the interpreter that runs
  the script.
\<close>

record fs_env =
  read_tileset :: "pystr \<Rightarrow> tileset_data option"
  walk :: "pystr \<Rightarrow> (pystr \<times> pystr list) list"
  relpath :: "pystr \<Rightarrow> pystr \<Rightarrow> pystr"
  decimal :: unicode_table

text \<open>
  The dictionary appended to \<^verbatim>\<open>tiles_to_process\<close>; \<open>xyz\<close> holds the keys \<^verbatim>\<open>x\<close>, \<^verbatim>\<open>y\<close>,
  \<^verbatim>\<open>z\<close> that only an implicit tile has. \<open>lod_level\<close> and \<open>tile_id\<close> are shared with the
  result rows of the report.
\<close>

record tile_ident =
  lod_level :: int
  tile_id :: int

record descriptor = tile_ident +
  parent_id :: "int option"
  tile_url :: pystr
  screen_space_error :: "real option"
  base_path :: pystr
  xyz :: "(int \<times> int \<times> int) option"

subsection \<open>\<open>get_unique_tile_id\<close>\<close>

text \<open>The global \<^verbatim>\<open>tile_id_counter\<close> is passed in and returned: the result is the new
  counter and the id.\<close>

definition get_unique_tile_id :: "int \<Rightarrow> int \<times> int" where
  "get_unique_tile_id tile_id_counter = (tile_id_counter + 1, tile_id_counter + 1)"

subsection \<open>\<open>process_tile_structure\<close>\<close>

text \<open>Python's truth value of an optional string: \<^verbatim>\<open>None\<close> and \<^verbatim>\<open>''\<close> are false.\<close>

definition truthy :: "pystr option \<Rightarrow> bool" where
  "truthy s = (s \<noteq> None \<and> s \<noteq> Some [])"

text \<open>
  The state of a traversal is the local variable \<^verbatim>\<open>tile_id\<close> (\<open>None\<close> while it is
  unbound), the counter and \<^verbatim>\<open>tiles_to_process\<close>. \<open>scan_file\<close> is the body of the loop
  over the files of one directory in the implicit-tiling branch.
\<close>

type_synonym scan_state = "int option \<times> int \<times> descriptor list"

definition scan_file ::
  "fs_env \<Rightarrow> int option \<Rightarrow> real option \<Rightarrow> pystr \<Rightarrow> pystr \<Rightarrow> pystr \<Rightarrow> scan_state \<Rightarrow> scan_state" where
  "scan_file env parent sse base dir file st =
     (if endswith file (str ''.glb'') then
        (let full_path = path_join dir file;
             relative_path = relpath env full_path base
         in case pattern_match (decimal env) relative_path of
              None \<Rightarrow> st
            | Some (level, x, y, z) \<Rightarrow>
                (let (counter, tid) = get_unique_tile_id (fst (snd st))
                 in (Some tid, counter, snd (snd st) @
                      [\<lparr> lod_level = int_of_digits (decimal env) level, tile_id = tid,
                         parent_id = parent, tile_url = relative_path, screen_space_error = sse,
                         base_path = base,
                         xyz = Some (int_of_digits (decimal env) x, int_of_digits (decimal env) y,
                                     int_of_digits (decimal env) z) \<rparr>])))
      else st)"

definition scan_tiles ::
  "fs_env \<Rightarrow> int option \<Rightarrow> real option \<Rightarrow> pystr \<Rightarrow> int \<times> descriptor list \<Rightarrow> scan_state" where
  "scan_tiles env parent sse base st =
     fold (\<lambda>(dir, files). fold (scan_file env parent sse base dir) files)
       (walk env (path_join base (str ''tiles''))) (None, st)"

text \<open>
  The recursion of \<^verbatim>\<open>process_tile_structure\<close> is bounded by the interpreter's recursion
  limit: the first argument is the number of frames left, and RecursionError is raised
  when none is. Reading the unbound \<^verbatim>\<open>tile_id\<close> for a child raises UnboundLocalError.
\<close>

fun process_tile_structure ::
  "nat \<Rightarrow> fs_env \<Rightarrow> tile \<Rightarrow> int option \<Rightarrow> int \<Rightarrow> pystr \<Rightarrow> int \<times> descriptor list
     \<Rightarrow> error + int \<times> descriptor list" where
  "process_tile_structure 0 env tile parent lod base st = Inl RecursionError"
| "process_tile_structure (Suc n) env tile parent lod base st =
     (let tile_content = (case content tile of None \<Rightarrow> \<lparr> uri = None, url = None \<rparr> | Some c \<Rightarrow> c);
          tile_uri_template = uri tile_content;
          sse = geometricError tile;
          own =
            (if truthy tile_uri_template \<and> contains (the tile_uri_template) (str ''{level}'')
             then Inr (scan_tiles env parent sse base st)
             else
               (let tile_url = (if truthy (uri tile_content) then uri tile_content
                                else url tile_content)
                in if truthy tile_url then
                     (if endswith (the tile_url) (str ''.json'') then
                        (let nested_tileset_path = path_join base (the tile_url)
                         in case read_tileset env nested_tileset_path of
                              None \<Rightarrow> Inl FileNotFoundError
                            | Some nested \<Rightarrow>
                                (case process_tile_structure n env
                                        (case root_tile nested of None \<Rightarrow> empty_tile | Some r \<Rightarrow> r)
                                        parent lod (dirname nested_tileset_path) st of
                                   Inl e \<Rightarrow> Inl e
                                 | Inr st' \<Rightarrow> Inr (None, st')))
                      else if endswith (the tile_url) (str ''.glb'') then
                        (let (counter, tid) = get_unique_tile_id (fst st)
                         in Inr (Some tid, counter, snd st @
                              [\<lparr> lod_level = lod, tile_id = tid, parent_id = parent,
                                 tile_url = the tile_url, screen_space_error = sse,
                                 base_path = base, xyz = None \<rparr>]))
                      else Inr (None, st))
                   else Inr (None, st)))
      in case own of
           Inl e \<Rightarrow> Inl e
         | Inr (tid, st') \<Rightarrow>
             (case children tile of
                None \<Rightarrow> Inr st'
              | Some cs \<Rightarrow>
                  fold_err
                    (\<lambda>child s. case tid of
                         None \<Rightarrow> Inl UnboundLocalError
                       | Some t \<Rightarrow> process_tile_structure n env child (Some t) (lod + 1) base s)
                    cs st'))"

subsection \<open>\<open>load_tileset\<close>\<close>

text \<open>\<^verbatim>\<open>list.sort(key=...)\<close> is a stable sort, which \<open>sort_key\<close> is too.\<close>

definition load_tileset ::
  "nat \<Rightarrow> fs_env \<Rightarrow> int \<Rightarrow> pystr \<Rightarrow> error + int \<times> descriptor list" where
  "load_tileset limit env tile_id_counter tileset_path =
     (case read_tileset env tileset_path of
        None \<Rightarrow> Inl FileNotFoundError
      | Some tileset_data \<Rightarrow>
          (case process_tile_structure limit env
                  (case root_tile tileset_data of None \<Rightarrow> empty_tile | Some r \<Rightarrow> r)
                  None 0 (dirname tileset_path) (tile_id_counter, []) of
             Inl e \<Rightarrow> Inl e
           | Inr (counter, tiles_to_process) \<Rightarrow>
               Inr (counter, sort_key lod_level tiles_to_process)))"

section \<open>Writing the report\<close>

text \<open>
  A value of a result dictionary. A result row is the dictionary built by
  \<^verbatim>\<open>process_tile_parallel\<close>: its keys \<^verbatim>\<open>lod_level\<close> and \<^verbatim>\<open>tile_id\<close>, which are integers,
  and its other keys in order (\<^verbatim>\<open>parent_id\<close>, \<^verbatim>\<open>tile_uri\<close>, \<^verbatim>\<open>screen_space_error\<close> and the
  statistics), each with its value.
\<close>

datatype pyval = PNone | PInt int | PFloat real | PStr pystr

record tile_result = tile_ident +
  entries :: "(string \<times> pyval) list"

text \<open>\<^verbatim>\<open>r[key]\<close> and \<^verbatim>\<open>d[key] = v\<close> on the other keys.\<close>

definition field_get :: "tile_result \<Rightarrow> string \<Rightarrow> error + pyval" where
  "field_get r key = (case map_of (entries r) key of None \<Rightarrow> Inl KeyError | Some v \<Rightarrow> Inr v)"

definition field_set :: "string \<Rightarrow> pyval \<Rightarrow> tile_result \<Rightarrow> tile_result" where
  "field_set key v r =
     (if key \<in> fst ` set (entries r)
      then r\<lparr> entries := map (\<lambda>(k, w). if k = key then (k, v) else (k, w)) (entries r) \<rparr>
      else r\<lparr> entries := entries r @ [(key, v)] \<rparr>)"

text \<open>\<^verbatim>\<open>isinstance(v, (int, float))\<close>, \<^verbatim>\<open>a + b\<close> and \<^verbatim>\<open>a / n\<close> on values.\<close>

fun is_number :: "pyval \<Rightarrow> bool" where
  "is_number (PInt i) = True"
| "is_number (PFloat x) = True"
| "is_number v = False"

fun py_add :: "pyval \<Rightarrow> pyval \<Rightarrow> error + pyval" where
  "py_add (PInt a) (PInt b) = Inr (PInt (a + b))"
| "py_add (PInt a) (PFloat b) = Inr (PFloat (real_of_int a + b))"
| "py_add (PFloat a) (PInt b) = Inr (PFloat (a + real_of_int b))"
| "py_add (PFloat a) (PFloat b) = Inr (PFloat (a + b))"
| "py_add a b = Inl TypeError"

fun py_truediv :: "pyval \<Rightarrow> nat \<Rightarrow> error + pyval" where
  "py_truediv (PInt a) n = (if n = 0 then Inl ZeroDivisionError else Inr (PFloat (real_of_int a / real n)))"
| "py_truediv (PFloat a) n = (if n = 0 then Inl ZeroDivisionError else Inr (PFloat (a / real n)))"
| "py_truediv a n = Inl TypeError"

text \<open>\<^verbatim>\<open>sum(r[key] for r in group)\<close>: the sum starts from the integer 0.\<close>

definition sum_key :: "string \<Rightarrow> tile_result list \<Rightarrow> error + pyval" where
  "sum_key key grp =
     fold_err (\<lambda>r acc. case field_get r key of Inl e \<Rightarrow> Inl e | Inr v \<Rightarrow> py_add acc v)
       grp (PInt 0)"

subsection \<open>\<open>write_results_to_csv\<close>\<close>

text \<open>The dictionary \<^verbatim>\<open>lod_groups\<close>, in insertion order.\<close>

definition group_add ::
  "tile_result \<Rightarrow> (int \<times> tile_result list) list \<Rightarrow> (int \<times> tile_result list) list" where
  "group_add result lod_groups =
     (case map_of lod_groups (lod_level result) of
        None \<Rightarrow> lod_groups @ [(lod_level result, [result])]
      | Some g \<Rightarrow>
          map (\<lambda>(k, grp). if k = lod_level result then (k, grp @ [result]) else (k, grp))
            lod_groups)"

definition lod_groups :: "tile_result list \<Rightarrow> (int \<times> tile_result list) list" where
  "lod_groups results = fold group_add results []"

text \<open>One turn of \<^verbatim>\<open>for key in group[0].keys()\<close>, on the row \<^verbatim>\<open>avg_result\<close>.\<close>

definition summary_key ::
  "tile_result list \<Rightarrow> tile_result \<Rightarrow> string \<Rightarrow> tile_result \<Rightarrow> error + tile_result" where
  "summary_key grp first key avg_result =
     (if key = ''total_polygons'' then
        (case sum_key key grp of
           Inl e \<Rightarrow> Inl e
         | Inr s \<Rightarrow> Inr (field_set key s avg_result))
      else if key \<noteq> ''lod_level'' \<and> key \<noteq> ''tile_id''
              \<and> (case map_of (entries first) key of None \<Rightarrow> False | Some v \<Rightarrow> is_number v) then
        (case sum_key key grp of
           Inl e \<Rightarrow> Inl e
         | Inr s \<Rightarrow>
             (case py_truediv s (length grp) of
                Inl e \<Rightarrow> Inl e
              | Inr m \<Rightarrow> Inr (field_set key m avg_result)))
      else Inr avg_result)"

text \<open>
  The summary row of one group: \<^verbatim>\<open>tile_id\<close> holds the number of tiles. The loop runs
  over the keys of the first row of the group; its keys \<^verbatim>\<open>lod_level\<close> and \<^verbatim>\<open>tile_id\<close>
  take neither branch, so the loop is run over the other keys.
\<close>

definition summary_row :: "int \<times> tile_result list \<Rightarrow> error + tile_result" where
  "summary_row lg =
     (case snd lg of
        [] \<Rightarrow> Inl IndexError
      | first # rest \<Rightarrow>
          fold_err (summary_key (snd lg) first) (map fst (entries first))
            \<lparr> lod_level = fst lg, tile_id = int (length (snd lg)), entries = [] \<rparr>)"

definition summarize :: "tile_result list \<Rightarrow> error + tile_result list" where
  "summarize results =
     fold_err (\<lambda>lg summary. case summary_row lg of Inl e \<Rightarrow> Inl e | Inr row \<Rightarrow> Inr (summary @ [row]))
       (sort_key fst (lod_groups results)) []"

text \<open>
  What is written: a header, the rows and blank rows. \<^verbatim>\<open>csv.DictWriter.writerow\<close> raises
  ValueError on a row with a key that is no field name. The rendering of a float with
  four decimals is left out.
\<close>

datatype csv_row = Header "string list" | Row tile_result | Blank

definition row_keys :: "tile_result \<Rightarrow> string list" where
  "row_keys r = ''lod_level'' # ''tile_id'' # map fst (entries r)"

definition writerows :: "string list \<Rightarrow> tile_result list \<Rightarrow> csv_row list \<Rightarrow> error + csv_row list" where
  "writerows fieldnames rows out =
     fold_err (\<lambda>r written. if set (row_keys r) \<subseteq> set fieldnames
                            then Inr (written @ [Row r]) else Inl ValueError)
       rows out"

definition write_results_to_csv :: "tile_result list \<Rightarrow> error + csv_row list" where
  "write_results_to_csv results =
     (case summarize results of
        Inl e \<Rightarrow> Inl e
      | Inr summary \<Rightarrow>
          (case results of
             [] \<Rightarrow> Inl IndexError
           | first # rest \<Rightarrow>
               (case writerows (row_keys first) summary [Header (row_keys first)] of
                  Inl e \<Rightarrow> Inl e
                | Inr written \<Rightarrow>
                    writerows (row_keys first) results
                      (written @ [Blank, Blank, Blank] @ [Header (row_keys first)]))))"

subsection \<open>The end of \<open>main\<close>\<close>

text \<open>
  From the results collected from the pool, in the order of the tiles, with \<open>None\<close> for
  a tile without statistics: the rows that are not \<^verbatim>\<open>None\<close> are kept, sorted by LOD
  level and written.
\<close>

definition report :: "tile_result option list \<Rightarrow> error + csv_row list" where
  "report results =
     write_results_to_csv
       (sort_key lod_level (concat (map (\<lambda>r. case r of None \<Rightarrow> [] | Some v \<Rightarrow> [v]) results)))"

section \<open>Invariants\<close>

text \<open>
  The ids of a traversal that started with the counter at \<open>c0\<close>: in the order of
  discovery they increase strictly, and each lies above \<open>c0\<close> and at most at the counter.
\<close>

definition ids_ok :: "int \<Rightarrow> int \<times> descriptor list \<Rightarrow> bool" where
  "ids_ok c0 st =
     (c0 \<le> fst st \<and> sorted_wrt (<) (map tile_id (snd st)) \<and>
      list_all (\<lambda>d. c0 < tile_id d \<and> tile_id d \<le> fst st) (snd st))"

text \<open>
  The cells of a grid that hold 1, a grid of \<open>res\<close> rows of \<open>res\<close> cells that hold 0 or 1,
  and two grids of one shape where every cell that holds 1 in the first does so in the
  second. \<open>cells_inv\<close> relates the state of the sampling loops to their start: the cells
  gained are the cells counted.
\<close>

definition occupied :: "grid \<Rightarrow> nat" where
  "occupied g = length (filter (\<lambda>c. c = 1) (concat g))"

definition square_grid :: "int \<Rightarrow> grid \<Rightarrow> bool" where
  "square_grid res g =
     (length g = nat res \<and>
      list_all (\<lambda>row. length row = nat res \<and> list_all (\<lambda>c. c = 0 \<or> c = 1) row) g)"



text \<open>
  The samples of a face: the index pairs \<open>(u, v)\<close> its two loops run through, in order. A
  sample hits the cell \<open>(r, c)\<close> when its indices select row \<open>r\<close> and column \<open>c\<close> of the
  grid and its point passes the point-in-triangle test; a face covers the cells that one of
  its samples hits. \<open>marks\<close> relates the grid to the start of the loops after the samples
  \<open>done\<close>: the cells that hold 1 are those that did and those that were hit.
\<close>

definition u_range :: "int \<Rightarrow> uv list \<Rightarrow> int list" where
  "u_range res uvs =
     py_range (py_int (Min (set (map fst uvs)) * real_of_int res))
       (min (py_int (Max (set (map fst uvs)) * real_of_int res) + 1) res)"

definition v_range :: "int \<Rightarrow> uv list \<Rightarrow> int list" where
  "v_range res uvs =
     py_range (py_int (Min (set (map snd uvs)) * real_of_int res))
       (min (py_int (Max (set (map snd uvs)) * real_of_int res) + 1) res)"





text \<open>
  The footprint of a face with three UV points is the triangle they span. It lies outside
  the UV range when no point of the triangle is in the unit square.
\<close>

definition in_triangle :: "uv \<Rightarrow> uv \<Rightarrow> uv \<Rightarrow> uv \<Rightarrow> bool" where
  "in_triangle t0 t1 t2 p =
     (\<exists>a b c. 0 \<le> a \<and> 0 \<le> b \<and> 0 \<le> c \<and> a + b + c = 1 \<and>
        fst p = a * fst t0 + b * fst t1 + c * fst t2 \<and>
        snd p = a * snd t0 + b * snd t1 + c * snd t2)"

definition in_unit_square :: "uv \<Rightarrow> bool" where
  "in_unit_square p = (0 \<le> fst p \<and> fst p \<le> 1 \<and> 0 \<le> snd p \<and> snd p \<le> 1)"

definition outside_unit_square :: "uv \<Rightarrow> uv \<Rightarrow> uv \<Rightarrow> bool" where
  "outside_unit_square t0 t1 t2 = (\<forall>p. in_triangle t0 t1 t2 p \<longrightarrow> \<not> in_unit_square p)"

definition non_negative :: "uv \<Rightarrow> bool" where
  "non_negative p = (0 \<le> fst p \<and> 0 \<le> snd p)"

text \<open>
  For the report: the value of a key of a row (\<^verbatim>\<open>None\<close> when the key is absent), the
  number a value stands for, the rows of one LOD level in the order of the results, and the
  values of one key over a group. \<open>exact_sum\<close> is the sum of numbers as Python forms it:
  an integer when all are integers, a float otherwise. \<open>combine\<close> is that sum on top of an
  accumulator.
\<close>

definition value_of :: "tile_result \<Rightarrow> string \<Rightarrow> pyval" where
  "value_of r key = (case map_of (entries r) key of None \<Rightarrow> PNone | Some v \<Rightarrow> v)"

fun num_val :: "pyval \<Rightarrow> real" where
  "num_val (PInt i) = real_of_int i"
| "num_val (PFloat x) = x"
| "num_val v = 0"

fun is_int :: "pyval \<Rightarrow> bool" where
  "is_int (PInt i) = True"
| "is_int v = False"

fun int_val :: "pyval \<Rightarrow> int" where
  "int_val (PInt i) = i"
| "int_val v = 0"

definition exact_sum :: "pyval list \<Rightarrow> pyval" where
  "exact_sum vs =
     (if list_all is_int vs then PInt (sum_list (map int_val vs))
      else PFloat (sum_list (map num_val vs)))"

definition group_of :: "tile_result list \<Rightarrow> int \<Rightarrow> tile_result list" where
  "group_of results lod = filter (\<lambda>r. lod_level r = lod) results"

definition combine :: "pyval \<Rightarrow> pyval list \<Rightarrow> pyval" where
  "combine acc vs =
     (if is_int acc \<and> list_all is_int vs then PInt (int_val acc + sum_list (map int_val vs))
      else PFloat (num_val acc + sum_list (map num_val vs)))"

definition column :: "string \<Rightarrow> tile_result list \<Rightarrow> pyval list" where
  "column key grp = map (\<lambda>r. value_of r key) grp"

text \<open>
  The keys for which the loop over the keys of the first row forms a sum, the value the
  summary row gets for a key, what it is for a row to be the summary of a group, and the
  lists of results on which every value that is summed is a number.
\<close>

definition summed :: "tile_result \<Rightarrow> string \<Rightarrow> bool" where
  "summed first key =
     (key = ''total_polygons'' \<or>
      key \<noteq> ''lod_level'' \<and> key \<noteq> ''tile_id'' \<and> is_number (value_of first key))"

definition summary_value :: "tile_result list \<Rightarrow> tile_result \<Rightarrow> string \<Rightarrow> pyval option" where
  "summary_value grp first key =
     (if key = ''total_polygons'' then Some (exact_sum (column key grp))
      else if key \<noteq> ''lod_level'' \<and> key \<noteq> ''tile_id'' \<and> is_number (value_of first key)
      then Some (PFloat (sum_list (map num_val (column key grp)) / real (length grp)))
      else None)"

definition summary_of :: "tile_result list \<Rightarrow> tile_result \<Rightarrow> bool" where
  "summary_of grp row =
     (case grp of
        [] \<Rightarrow> False
      | first # rest \<Rightarrow>
          tile_id row = int (length grp) \<and>
          list_all (\<lambda>key. key \<in> set (map fst (entries first))) (map fst (entries row)) \<and>
          list_all (\<lambda>key. map_of (entries row) key = summary_value grp first key)
            (map fst (entries first)))"

definition uniform_group :: "tile_result list \<Rightarrow> bool" where
  "uniform_group grp =
     (case grp of
        [] \<Rightarrow> True
      | first # rest \<Rightarrow>
          list_all (\<lambda>key. summed first key \<longrightarrow> list_all is_number (column key grp))
            (map fst (entries first)))"

definition uniform :: "tile_result list \<Rightarrow> bool" where
  "uniform results = list_all (\<lambda>r. uniform_group (group_of results (lod_level r))) results"

section \<open>Concrete inputs\<close>

text \<open>A textured object with one active UV layer, used to run the functions.\<close>

definition textured_obj :: "int \<Rightarrow> int \<Rightarrow> face list \<Rightarrow> mesh_obj" where
  "textured_obj w h fs =
     \<lparr> uv_layer = True,
       material_nodes = Some [\<lparr> node_type = ''TEX_IMAGE'', node_image = Some (w, h) \<rparr>],
       faces = fs,
       edge_lengths = [1, 1, 1] \<rparr>"

definition corner_face :: face where
  "corner_face = \<lparr> face_area = 1, uv_coords = [(0, 0), (1, 0), (0, 1)] \<rparr>"

definition bare_obj :: mesh_obj where
  "bare_obj = \<lparr> uv_layer = False, material_nodes = None, faces = [corner_face],
                edge_lengths = [1, 1, 1] \<rparr>"

definition one_mesh_loader :: loader where
  "one_mesh_loader = \<lparr> is_file = (\<lambda>p. True), import_gltf = (\<lambda>p. Some [Other, Mesh bare_obj]) \<rparr>"

text \<open>
  A root with a geometric error of 16, no content and one child that refers to
  \<^verbatim>\<open>tile_0.glb\<close>.
\<close>

definition leaf_tile :: tile where
  "leaf_tile = Tile (Some \<lparr> uri = Some (str ''tile_0.glb''), url = None \<rparr>) None None"

definition scenario_root :: tile where
  "scenario_root = Tile None (Some 16) (Some [leaf_tile])"

text \<open>
  The decimal digits of version 14 of the Unicode database. They come in runs of ten code
  points with the values 0 to 9 in order; \<open>decimal_zeros\<close> lists the first code point of
  every run.
\<close>

definition decimal_zeros :: "nat list" where
  "decimal_zeros =
     [48, 1632, 1776, 1984, 2406, 2534, 2662, 2790, 2918, 3046, 3174, 3302, 3430, 3558, 3664,
      3792, 3872, 4160, 4240, 6112, 6160, 6470, 6608, 6784, 6800, 6992, 7088, 7232, 7248,
      42528, 43216, 43264, 43472, 43504, 43600, 44016, 65296, 66720, 68912, 69734, 69872,
      69942, 70096, 70384, 70736, 70864, 71248, 71360, 71472, 71904, 72016, 72784, 73040,
      73120, 92768, 92864, 93008, 120782, 120792, 120802, 120812, 120822, 123200, 123632,
      125264, 130032]"

definition unicode_decimal :: unicode_table where
  "unicode_decimal c =
     (case List.find (\<lambda>z. z \<le> c \<and> c < z + 10) decimal_zeros of
        None \<Rightarrow> None
      | Some z \<Rightarrow> Some (c - z))"

text \<open>
  A directory \<^verbatim>\<open>data\<close> with a document whose root is an implicit-tiling template, and
  four files below \<^verbatim>\<open>data/tiles\<close>.
\<close>

definition grid_root :: tile where
  "grid_root =
     Tile (Some \<lparr> uri = Some (str ''tiles/{level}/{x}/{y}/{z}.glb''), url = None \<rparr>) (Some 16) None"

definition grid_env :: fs_env where
  "grid_env =
     \<lparr> read_tileset =
         (\<lambda>p. if p = str ''data/tileset.json'' then Some (Tileset (Some grid_root)) else None),
       walk = (\<lambda>top. if top = str ''data/tiles''
                      then [(str ''data/tiles/1/0/0'', [str ''0.glb'', str ''notes.txt'']),
                            (str ''data/tiles/0/0/0'', [str ''0.glb'']),
                            (str ''data/tiles/1/2/3'', [str ''4.glb.glb''])]
                      else []),
       relpath = (\<lambda>p start. drop (Suc (length start)) p),
       decimal = unicode_decimal \<rparr>"

definition grid_tile :: "int \<Rightarrow> int \<Rightarrow> pystr \<Rightarrow> int \<times> int \<times> int \<Rightarrow> descriptor" where
  "grid_tile lod tid path coords =
     \<lparr> lod_level = lod, tile_id = tid, parent_id = None, tile_url = path,
       screen_space_error = Some 16, base_path = str ''data'', xyz = Some coords \<rparr>"


definition point_face :: face where
  "point_face = \<lparr> face_area = 0, uv_coords = [(1 / 4, 1 / 4), (1 / 4, 1 / 4), (1 / 4, 1 / 4)] \<rparr>"

definition outside_face :: face where
  "outside_face = \<lparr> face_area = 3, uv_coords = [(- 1, - 1), (- 1 / 2, - 1), (- 1, - 1 / 2)] \<rparr>"

definition beyond_corner_face :: face where
  "beyond_corner_face = \<lparr> face_area = 1, uv_coords = [(1 / 2, 2), (2, 1 / 2), (2, 2)] \<rparr>"

definition far_face :: face where
  "far_face = \<lparr> face_area = 1, uv_coords = [(1, 0), (2, 0), (1, 1)] \<rparr>"

text \<open>Result rows: a tile with its parent, its screen space error and its polygon count.\<close>

definition result_row :: "int \<Rightarrow> int \<Rightarrow> pyval \<Rightarrow> pyval \<Rightarrow> int \<Rightarrow> tile_result" where
  "result_row lod tid parent sse polygons =
     \<lparr> lod_level = lod, tile_id = tid,
       entries = [(''parent_id'', parent), (''tile_uri'', PStr (str ''tile.glb'')),
                  (''screen_space_error'', sse), (''texture_utilization'', PFloat (1 / 2)),
                  (''total_polygons'', PInt polygons)] \<rparr>"

definition example_results :: "tile_result list" where
  "example_results =
     [result_row 1 2 (PInt 1) (PFloat 8) 10,
      result_row 0 1 PNone (PFloat 16) 4,
      result_row 1 3 (PInt 1) (PFloat 4) 30]"

definition mixed_results :: "tile_result list" where
  "mixed_results =
     [result_row 1 2 (PInt 1) (PFloat 16) 2,
      result_row 1 3 (PInt 1) PNone 4]"

section \<open>Properties of the rasterizer\<close>

lemma round_even_int: "round_even (of_int n) = n"
  by (simp add: round_even_def)

lemma round_even_nonneg: "0 \<le> x \<Longrightarrow> 0 \<le> round_even x"
  by (auto simp: round_even_def Let_def)

lemma round_even_le:
  assumes "x \<le> of_int n" shows "round_even x \<le> n"
proof (cases "x - of_int \<lfloor>x\<rfloor> < 1 / 2")
  case True
  then have "round_even x = \<lfloor>x\<rfloor>" by (simp add: round_even_def)
  with assms show ?thesis by (simp add: floor_le_iff)
next
  case False
  then have "of_int \<lfloor>x\<rfloor> < x" by linarith
  with assms have "\<lfloor>x\<rfloor> < n" by linarith
  moreover have "round_even x \<le> \<lfloor>x\<rfloor> + 1" by (simp add: round_even_def Let_def)
  ultimately show ?thesis by simp
qed

lemma ulp32_eval:
  assumes "2 powr of_int e \<le> \<bar>x\<bar>" "\<bar>x\<bar> < 2 powr (of_int e + 1)" "- 126 \<le> e"
  shows "ulp32 x = 2 powr (of_int e - 23)"
proof -
  from assms(1) have "0 < \<bar>x\<bar>" by (smt (verit) powr_gt_zero)
  then have "\<lfloor>log 2 \<bar>x\<bar>\<rfloor> = e" using assms(1,2) by (simp add: floor_log_eq_powr_iff)
  with assms(3) show ?thesis by (simp add: ulp32_def)
qed

lemma f32_half: "f32 (1 / 2) = 1 / 2"
proof -
  have "ulp32 (1 / 2) = 2 powr (of_int (- 1) - 23)"
    by (rule ulp32_eval) (simp_all add: powr_minus)
  then have u: "ulp32 (1 / 2) = 1 / 16777216"
    by (simp add: powr_minus field_simps)
  have "round_even 8388608 = 8388608"
    by (simp add: round_even_def Let_def)
  then show ?thesis unfolding f32_def u by simp
qed

lemma f32_one: "f32 1 = 1"
proof -
  have "ulp32 1 = 2 powr (of_int 0 - 23)"
    by (rule ulp32_eval) simp_all
  then have u: "ulp32 1 = 1 / 8388608"
    by (simp add: powr_minus field_simps)
  have "round_even 8388608 = 8388608"
    by (simp add: round_even_def Let_def)
  then show ?thesis unfolding f32_def u by simp
qed

lemma f32_minus_half: "f32 (- 1 / 2) = - 1 / 2"
proof -
  have "ulp32 (- 1 / 2) = 2 powr (of_int (- 1) - 23)"
    by (rule ulp32_eval) (simp_all add: powr_minus)
  then have u: "ulp32 (- 1 / 2) = 1 / 16777216"
    by (simp add: powr_minus field_simps)
  have "round_even (- 8388608) = - 8388608"
    by (simp add: round_even_def Let_def)
  then show ?thesis unfolding f32_def u by simp
qed

lemma f32_third: "f32 (1 / 3) = 11184811 / 33554432"
proof -
  have u: "ulp32 (1 / 3) = 2 powr (of_int (- 2) - 23)"
    by (rule ulp32_eval) (simp_all add: powr_minus)
  have u': "ulp32 (1 / 3) = 1 / 33554432"
    unfolding u by (simp add: powr_minus field_simps)
  have "round_even (33554432 / 3) = 11184811"
    by (simp add: round_even_def Let_def)
  then show ?thesis unfolding f32_def u' by simp
qed

lemma ulp32_pos: "0 < ulp32 x"
  by (simp add: ulp32_def)

lemma f32_unit:
  assumes "0 \<le> x" "x \<le> 1"
  shows "0 \<le> f32 x \<and> f32 x \<le> 1"
proof (cases "x = 0")
  case True
  then show ?thesis by (simp add: f32_def)
next
  case False
  with assms have pos: "0 < x" by simp
  define e where "e = max \<lfloor>log 2 \<bar>x\<bar>\<rfloor> (- 126)"
  have u: "ulp32 x = 2 powr (of_int e - 23)" by (simp add: ulp32_def e_def)
  from pos assms(2) have "log 2 \<bar>x\<bar> \<le> 0" by simp
  then have "\<lfloor>log 2 \<bar>x\<bar>\<rfloor> \<le> 0" by (simp add: floor_le_iff)
  then have e: "e \<le> 0" by (simp add: e_def)
  define N :: int where "N = 2 ^ nat (23 - e)"
  have "2 powr (real_of_int (23 - e)) = 2 powr real (nat (23 - e))" using e by simp
  also have "\<dots> = 2 ^ nat (23 - e)" by (simp add: powr_realpow)
  finally have "2 powr (23 - real_of_int e) = of_int N" by (simp add: N_def)
  then have inv: "1 / ulp32 x = of_int N"
    unfolding u by (simp add: powr_diff field_simps)
  have "x / ulp32 x = x * (1 / ulp32 x)" by simp
  also have "\<dots> \<le> 1 * (1 / ulp32 x)" using assms(2) ulp32_pos[of x] by (intro mult_right_mono) simp_all
  finally have "x / ulp32 x \<le> of_int N" using inv by simp
  then have r1: "round_even (x / ulp32 x) \<le> N" by (rule round_even_le)
  have "0 \<le> x / ulp32 x" using pos ulp32_pos[of x] by simp
  then have r0: "0 \<le> round_even (x / ulp32 x)" by (rule round_even_nonneg)
  have "of_int (round_even (x / ulp32 x)) * ulp32 x \<le> of_int N * ulp32 x"
    using r1 ulp32_pos[of x] by (intro mult_right_mono) simp_all
  also have "of_int N * ulp32 x = 1" using inv ulp32_pos[of x] by (simp add: field_simps)
  finally have "f32 x \<le> 1" using False by (simp add: f32_def)
  moreover have "0 \<le> f32 x" using False r0 ulp32_pos[of x] by (simp add: f32_def)
  ultimately show ?thesis by simp
qed

lemma f32_minus_half': "f32 (- (1 / 2)) = - (1 / 2)"
  using f32_minus_half by simp

lemma f32_zero: "f32 0 = 0"
  by (simp add: f32_def)

lemma f32_minus_one: "f32 (- 1) = - 1"
proof -
  have "ulp32 (- 1) = 2 powr (of_int 0 - 23)"
    by (rule ulp32_eval) simp_all
  then have u: "ulp32 (- 1) = 1 / 8388608"
    by (simp add: powr_minus field_simps)
  have "round_even (- 8388608) = - 8388608"
    by (simp add: round_even_def Let_def)
  then show ?thesis unfolding f32_def u by simp
qed

lemma fold_err_invariant:
  assumes "fold_err f xs s = Inr s'" and "I s"
    and "\<And>x a b. x \<in> set xs \<Longrightarrow> I a \<Longrightarrow> f x a = Inr b \<Longrightarrow> I b"
  shows "I s'"
  using assms
proof (induction xs arbitrary: s)
  case Nil
  then show ?case by simp
next
  case (Cons x xs)
  from Cons.prems(1) obtain s1 where s1: "f x s = Inr s1" and rest: "fold_err f xs s1 = Inr s'"
    by (auto split: sum.splits)
  have "I s1" using Cons.prems(2,3) s1 by auto
  with rest show ?case using Cons.IH Cons.prems(3) by auto
qed

lemma fold_invariant:
  assumes "I s" and "\<And>x a. x \<in> set xs \<Longrightarrow> I a \<Longrightarrow> I (f x a)"
  shows "I (fold f xs s)"
  using assms by (induction xs arbitrary: s) auto

lemma grid_resolution_div2: "0 \<le> max w h \<Longrightarrow> grid_resolution w h = max w h div 2"
proof -
  assume m: "0 \<le> max w h"
  have "\<lfloor>real_of_int (max w h) * (1/2)\<rfloor> = max w h div 2"
    by (simp add: floor_divide_of_int_eq[of "max w h" 2, simplified])
  with m show ?thesis
    unfolding grid_resolution_def py_int_def fraction_def by simp
qed

lemma py_range_empty: "b \<le> a \<Longrightarrow> py_range a b = []"
  by (simp add: py_range_def)

lemma fold_err_inner_empty: "fold_err (\<lambda>u. fold_err (f u) []) us s = Inr s"
  by (induction us) simp_all

lemma py_min_Inr: "xs \<noteq> [] \<Longrightarrow> \<exists>m. py_min xs = Inr m \<and> m \<in> set xs"
proof -
  have "fold min ys y \<in> set (y # ys)" for ys and y :: real
    by (induction ys arbitrary: y) (auto simp: min_def)
  then show "xs \<noteq> [] \<Longrightarrow> ?thesis"
    by (cases xs) (auto simp: py_min_def)
qed

lemma py_max_Inr: "xs \<noteq> [] \<Longrightarrow> \<exists>m. py_max xs = Inr m \<and> m \<in> set xs"
proof -
  have "fold max ys y \<in> set (y # ys)" for ys and y :: real
    by (induction ys arbitrary: y) (auto simp: max_def)
  then show "xs \<noteq> [] \<Longrightarrow> ?thesis"
    by (cases xs) (auto simp: py_max_def)
qed

lemma sample_face_zero_res: 
  assumes "uvs \<noteq> []" shows "sample_face 0 uvs g = Inr (g, 0)"
proof -
  obtain a where a: "py_min (map fst uvs) = Inr a" using py_min_Inr[of "map fst uvs"] assms by auto
  obtain b where b: "py_max (map fst uvs) = Inr b" using py_max_Inr[of "map fst uvs"] assms by auto
  obtain c where c: "py_min (map snd uvs) = Inr c" using py_min_Inr[of "map snd uvs"] assms by auto
  obtain d where d: "py_max (map snd uvs) = Inr d" using py_max_Inr[of "map snd uvs"] assms by auto
  show ?thesis
    by (simp add: sample_face_def a b c d py_int_def py_range_def)
qed

lemma py_int_ge: "0 \<le> r \<Longrightarrow> real_of_int r \<le> x \<Longrightarrow> r \<le> py_int x"
  by (auto simp: py_int_def le_floor_iff)

lemma sample_face_beyond:
  assumes ne: "uvs \<noteq> []" and res: "0 \<le> res"
    and out: "(\<forall>p \<in> set uvs. 1 \<le> fst p) \<or> (\<forall>p \<in> set uvs. 1 \<le> snd p)"
  shows "sample_face res uvs g = Inr (g, 0)"
proof -
  obtain a where a: "py_min (map fst uvs) = Inr a" "a \<in> set (map fst uvs)" using py_min_Inr[of "map fst uvs"] ne by auto
  obtain b where b: "py_max (map fst uvs) = Inr b" using py_max_Inr[of "map fst uvs"] ne by auto
  obtain c where c: "py_min (map snd uvs) = Inr c" "c \<in> set (map snd uvs)" using py_min_Inr[of "map snd uvs"] ne by auto
  obtain d where d: "py_max (map snd uvs) = Inr d" using py_max_Inr[of "map snd uvs"] ne by auto
  from out show ?thesis
  proof
    assume "\<forall>p \<in> set uvs. 1 \<le> fst p"
    with a have "1 \<le> a" by auto
    with res have "real_of_int res \<le> a * real_of_int res"
      by (simp add: mult_le_cancel_right1)
    with res have "res \<le> py_int (a * real_of_int res)" by (rule py_int_ge)
    then have "py_range (py_int (a * real_of_int res)) (min (py_int (b * real_of_int res) + 1) res) = []"
      by (intro py_range_empty) simp
    then show ?thesis by (simp add: sample_face_def a b c d)
  next
    assume "\<forall>p \<in> set uvs. 1 \<le> snd p"
    with c have "1 \<le> c" by auto
    with res have "real_of_int res \<le> c * real_of_int res"
      by (simp add: mult_le_cancel_right1)
    with res have "res \<le> py_int (c * real_of_int res)" by (rule py_int_ge)
    then have "py_range (py_int (c * real_of_int res)) (min (py_int (d * real_of_int res) + 1) res) = []"
      by (intro py_range_empty) simp
    then show ?thesis by (simp add: sample_face_def a b c d fold_err_inner_empty)
  qed
qed

lemma point_in_collapsed_triangle: "point_in_triangle_uv p (q # q # q # rest) = Inr True"
  by (simp add: point_in_triangle_uv_def sign_def Let_def)

lemma rasterize_zero_res:
  assumes "grid_resolution w h = 0" and "\<forall>f \<in> set fs. uv_coords f \<noteq> []"
  shows "rasterize w h fs = Inr ([], [])"
proof -
  have "fold_err (face_step 0 w h) fs (g, ts) = Inr (g, ts)" if "\<forall>f \<in> set fs. uv_coords f \<noteq> []" for g ts
    using that by (induction fs) (simp_all add: face_step_def sample_face_zero_res)
  with assms show ?thesis by (simp add: rasterize_def new_grid_def)
qed

lemma find_image_textured_obj: "find_image (textured_obj w h fs) = Some (w, h)"
  by (simp add: find_image_def textured_obj_def)

text \<open>
  C10. For a texture whose larger dimension is at least 2 the grid resolution is at least
  1, the number of grid cells is positive and the final division by it succeeds. For a
  texture whose larger dimension is 1 the grid resolution and the number of cells are 0,
  and the function ends in ZeroDivisionError at the utilization division (every face
  having at least one UV coordinate, as Blender's faces do).
\<close>

theorem grid_resolution_division:
  assumes "uv_layer obj" and "find_image obj = Some (w, h)"
  shows "(2 \<le> max w h \<longrightarrow>
            1 \<le> grid_resolution w h \<and> 0 < total_pixels (grid_resolution w h) \<and>
            py_div used (real_of_int (total_pixels (grid_resolution w h)))
              = Inr (used / real_of_int (total_pixels (grid_resolution w h)))) \<and>
         (max w h = 1 \<longrightarrow>
            grid_resolution w h = 0 \<and> total_pixels (grid_resolution w h) = 0 \<and>
            ((\<forall>f \<in> set (faces obj). uv_coords f \<noteq> []) \<longrightarrow>
               calculate_texel_sizes_and_utilization obj = Inl ZeroDivisionError))"
proof (intro conjI impI)
  assume m: "2 \<le> max w h"
  then have "grid_resolution w h = max w h div 2" by (intro grid_resolution_div2) simp
  with m show r: "1 \<le> grid_resolution w h" by simp
  then show t: "0 < total_pixels (grid_resolution w h)" by (simp add: total_pixels_def)
  then show "py_div used (real_of_int (total_pixels (grid_resolution w h)))
              = Inr (used / real_of_int (total_pixels (grid_resolution w h)))"
    by (simp add: py_div_def)
next
  assume m: "max w h = 1"
  then have "grid_resolution w h = max w h div 2" by (intro grid_resolution_div2) simp
  with m show r: "grid_resolution w h = 0" by simp
  then show "total_pixels (grid_resolution w h) = 0" by (simp add: total_pixels_def)
  assume "\<forall>f \<in> set (faces obj). uv_coords f \<noteq> []"
  with r have "rasterize w h (faces obj) = Inr ([], [])" by (rule rasterize_zero_res)
  with assms r show "calculate_texel_sizes_and_utilization obj = Inl ZeroDivisionError"
    by (simp add: calculate_texel_sizes_and_utilization_def total_pixels_def py_div_def)
qed

theorem grid_resolution_division_witness:
  "1 \<le> grid_resolution 4 2 \<and> 0 < total_pixels (grid_resolution 4 2) \<and>
   py_div 3 (real_of_int (total_pixels (grid_resolution 4 2)))
     = Inr (3 / real_of_int (total_pixels (grid_resolution 4 2))) \<and>
   calculate_texel_sizes_and_utilization (textured_obj 1 1 [corner_face]) = Inl ZeroDivisionError"
  using grid_resolution_division [of "textured_obj 4 2 [corner_face]" 4 2 3]
    grid_resolution_division [of "textured_obj 1 1 [corner_face]" 1 1 0]
  by (simp add: find_image_textured_obj) (simp add: textured_obj_def corner_face_def)




















lemma grid_resolution_4: "grid_resolution 4 4 = 2"
  by (simp add: grid_resolution_def py_int_def fraction_def)

lemmas run_face =
  rasterize_def grid_resolution_4 face_step_def texel_size_def sample_face_def
  py_min_def py_max_def py_int_def py_range_def new_grid_def sample_cell_def py_div_def
  point_in_triangle_uv_def sign_def py_index_def upto.simps numeral_2_eq_2 real_sqrt_divide
  vector_def f32_zero f32_half f32_one f32_minus_half' f32_minus_one



lemma ceiling_minus_one: "\<lceil>- 1 :: real\<rceil> = - 1"
  by (rule ceiling_unique) simp_all

text \<open>
  A face left of and below the unit square reaches the grid through negative indices,
  which count from the end of a list.
\<close>

lemma rasterize_outside: "rasterize 4 4 [outside_face] = Inr ([[1, 1], [1, 0]], [1 / 2])"
  by (simp add: run_face outside_face_def ceiling_minus_one)

lemma py_min_Min: "xs \<noteq> [] \<Longrightarrow> py_min xs = Inr (Min (set xs))"
proof (cases xs)
  case Nil
  then show "xs \<noteq> [] \<Longrightarrow> ?thesis" by simp
next
  case (Cons y ys)
  have "fold min ys y = Min (set (y # ys))" by (rule Min.set_eq_fold[symmetric])
  with Cons show ?thesis by (simp add: py_min_def)
qed

lemma py_max_Max: "xs \<noteq> [] \<Longrightarrow> py_max xs = Inr (Max (set xs))"
proof (cases xs)
  case Nil
  then show "xs \<noteq> [] \<Longrightarrow> ?thesis" by simp
next
  case (Cons y ys)
  have "fold max ys y = Max (set (y # ys))" by (rule Max.set_eq_fold[symmetric])
  with Cons show ?thesis by (simp add: py_max_def)
qed




lemma square_grid_nth:
  assumes "square_grid res g" "r < nat res" "c < nat res"
  shows "length g = nat res" "length (g ! r) = nat res" "g ! r ! c = 0 \<or> g ! r ! c = 1"
proof -
  from assms(1) show l: "length g = nat res" by (simp add: square_grid_def)
  with assms(2) have "g ! r \<in> set g" by simp
  with assms(1) have row: "length (g ! r) = nat res" "list_all (\<lambda>c. c = 0 \<or> c = 1) (g ! r)"
    by (simp_all add: square_grid_def list_all_iff)
  then show "length (g ! r) = nat res" by simp
  from row assms(3) show "g ! r ! c = 0 \<or> g ! r ! c = 1" by (simp add: list_all_length)
qed



lemma sign_sum: "sign p t0 t1 + sign p t1 t2 + sign p t2 t0 = sign t2 t0 t1"
  by (simp add: sign_def algebra_simps)

lemma sign_swap: "sign p b a = - sign p a b"
  by (simp add: sign_def algebra_simps)

lemma sign_same: "sign p a a = 0"
  by (simp add: sign_def)

lemma barycentric:
  "sign t2 t0 t1 * fst p = sign p t1 t2 * fst t0 + sign p t2 t0 * fst t1 + sign p t0 t1 * fst t2"
  "sign t2 t0 t1 * snd p = sign p t1 t2 * snd t0 + sign p t2 t0 * snd t1 + sign p t0 t1 * snd t2"
  by (simp_all add: sign_def algebra_simps)

lemma in_triangle_vertex:
  "in_triangle t0 t1 t2 t0" "in_triangle t0 t1 t2 t1" "in_triangle t0 t1 t2 t2"
proof -
  show "in_triangle t0 t1 t2 t0" unfolding in_triangle_def
    by (rule exI[of _ 1], rule exI[of _ 0], rule exI[of _ 0]) simp
  show "in_triangle t0 t1 t2 t1" unfolding in_triangle_def
    by (rule exI[of _ 0], rule exI[of _ 1], rule exI[of _ 0]) simp
  show "in_triangle t0 t1 t2 t2" unfolding in_triangle_def
    by (rule exI[of _ 0], rule exI[of _ 0], rule exI[of _ 1]) simp
qed

lemma in_triangle_convex:
  assumes "in_triangle t0 t1 t2 x" "in_triangle t0 t1 t2 y" "0 \<le> l" "l \<le> 1"
  shows "in_triangle t0 t1 t2 ((1 - l) * fst x + l * fst y, (1 - l) * snd x + l * snd y)"
proof -
  from assms(1) obtain a b c where x: "0 \<le> a" "0 \<le> b" "0 \<le> c" "a + b + c = 1"
    "fst x = a * fst t0 + b * fst t1 + c * fst t2" "snd x = a * snd t0 + b * snd t1 + c * snd t2"
    unfolding in_triangle_def by blast
  from assms(2) obtain a' b' c' where y: "0 \<le> a'" "0 \<le> b'" "0 \<le> c'" "a' + b' + c' = 1"
    "fst y = a' * fst t0 + b' * fst t1 + c' * fst t2" "snd y = a' * snd t0 + b' * snd t1 + c' * snd t2"
    unfolding in_triangle_def by blast
  have l': "0 \<le> 1 - l" using assms(4) by simp
  have "0 \<le> (1 - l) * a + l * a'" "0 \<le> (1 - l) * b + l * b'" "0 \<le> (1 - l) * c + l * c'"
    using x(1-3) y(1-3) assms(3) l' by simp_all
  moreover have "((1 - l) * a + l * a') + ((1 - l) * b + l * b') + ((1 - l) * c + l * c') = 1"
  proof -
    have "((1 - l) * a + l * a') + ((1 - l) * b + l * b') + ((1 - l) * c + l * c')
          = (1 - l) * (a + b + c) + l * (a' + b' + c')" by (simp add: algebra_simps)
    then show ?thesis by (simp add: x(4) y(4))
  qed
  moreover have "(1 - l) * fst x + l * fst y =
      ((1 - l) * a + l * a') * fst t0 + ((1 - l) * b + l * b') * fst t1 + ((1 - l) * c + l * c') * fst t2"
    unfolding x(5) y(5) by (simp add: algebra_simps)
  moreover have "(1 - l) * snd x + l * snd y =
      ((1 - l) * a + l * a') * snd t0 + ((1 - l) * b + l * b') * snd t1 + ((1 - l) * c + l * c') * snd t2"
    unfolding x(6) y(6) by (simp add: algebra_simps)
  ultimately show ?thesis unfolding in_triangle_def fst_conv snd_conv by blast
qed

lemma test_true_weights:
  assumes t: "point_in_triangle_uv p [t0, t1, t2] = Inr True" and A: "sign t2 t0 t1 \<noteq> 0"
  shows "in_triangle t0 t1 t2 p"
proof -
  let ?A = "sign t2 t0 t1"
  let ?d1 = "sign p t0 t1" and ?d2 = "sign p t1 t2" and ?d3 = "sign p t2 t0"
  from t have same: "(0 \<le> ?d1 \<and> 0 \<le> ?d2 \<and> 0 \<le> ?d3) \<or> (?d1 \<le> 0 \<and> ?d2 \<le> 0 \<and> ?d3 \<le> 0)"
    by (simp add: point_in_triangle_uv_def Let_def) linarith
  have sum: "?d1 + ?d2 + ?d3 = ?A" by (rule sign_sum)
  have w: "0 \<le> ?d2 / ?A" "0 \<le> ?d3 / ?A" "0 \<le> ?d1 / ?A"
    using same sum A by (auto simp: zero_le_divide_iff)
  have s: "?d2 / ?A + ?d3 / ?A + ?d1 / ?A = 1"
    using sum A by (simp add: add_divide_distrib[symmetric])
  have x: "fst p = ?d2 / ?A * fst t0 + ?d3 / ?A * fst t1 + ?d1 / ?A * fst t2"
    using barycentric(1)[of t2 t0 t1 p] A by (simp add: field_simps)
  have y: "snd p = ?d2 / ?A * snd t0 + ?d3 / ?A * snd t1 + ?d1 / ?A * snd t2"
    using barycentric(2)[of t2 t0 t1 p] A by (simp add: field_simps)
  show ?thesis unfolding in_triangle_def using w s x y by blast
qed

lemma test_true_flat:
  assumes t: "point_in_triangle_uv p [t0, t1, t2] = Inr True" and A: "sign t2 t0 t1 = 0"
  shows "sign p t0 t1 = 0 \<and> sign p t1 t2 = 0 \<and> sign p t2 t0 = 0"
proof -
  from t have same: "(0 \<le> sign p t0 t1 \<and> 0 \<le> sign p t1 t2 \<and> 0 \<le> sign p t2 t0) \<or>
      (sign p t0 t1 \<le> 0 \<and> sign p t1 t2 \<le> 0 \<and> sign p t2 t0 \<le> 0)"
    by (simp add: point_in_triangle_uv_def Let_def) linarith
  with sign_sum[of p t0 t1 t2] A show ?thesis by linarith
qed

lemma beyond_corner:
  fixes ax ay bx "by" px py :: real
  assumes "ax < 1" "1 < ay" "1 < bx" "by < 1"
    and coll: "(px - bx) * (ay - by) - (ax - bx) * (py - by) = 0"
    and "px \<le> 1" "py \<le> 1"
    and mid: "bx - ax < (bx - 1) * ay + (1 - ax) * by"
  shows False
proof -
  have D: "0 < bx - ax" using assms(1,3) by simp
  from coll have "(bx - ax) * py = (bx - ax) * by + (bx - px) * (ay - by)"
    by (simp add: algebra_simps)
  then have "(bx - ax) * py - ((bx - 1) * ay + (1 - ax) * by) = (1 - px) * (ay - by)"
    by (simp add: algebra_simps)
  moreover have "0 \<le> (1 - px) * (ay - by)" using assms(2,4,6) by simp
  ultimately have "(bx - 1) * ay + (1 - ax) * by \<le> (bx - ax) * py" by simp
  with mid have "(bx - ax) * 1 < (bx - ax) * py" by simp
  with D have "1 < py" by (simp only: mult_less_cancel_left_pos)
  with assms(7) show False by simp
qed

lemma test_Inr: "\<exists>b. point_in_triangle_uv p [t0, t1, t2] = Inr b"
  by (simp add: point_in_triangle_uv_def Let_def)

lemma outside_test_false:
  assumes out: "outside_unit_square t0 t1 t2"
    and nn: "non_negative t0" "non_negative t1" "non_negative t2"
    and p: "in_unit_square p"
    and lowu: "Min (set (map fst [t0, t1, t2])) < 1"
    and lowv: "Min (set (map snd [t0, t1, t2])) < 1"
  shows "point_in_triangle_uv p [t0, t1, t2] = Inr False"
proof (rule ccontr)
  assume "point_in_triangle_uv p [t0, t1, t2] \<noteq> Inr False"
  with test_Inr[of p t0 t1 t2] have t: "point_in_triangle_uv p [t0, t1, t2] = Inr True" by auto
  show False
  proof (cases "sign t2 t0 t1 = 0")
    case False
    with t have "in_triangle t0 t1 t2 p" by (rule test_true_weights)
    with out p show False unfolding outside_unit_square_def by blast
  next
    case True
    with t have flat: "sign p t0 t1 = 0" "sign p t1 t2 = 0" "sign p t2 t0 = 0"
      using test_true_flat by blast+
    have vert: "x \<in> {t0, t1, t2} \<Longrightarrow> in_triangle t0 t1 t2 x \<and> non_negative x" for x
      using in_triangle_vertex[of t0 t1 t2] nn by auto
    have coll: "x \<in> {t0, t1, t2} \<Longrightarrow> y \<in> {t0, t1, t2} \<Longrightarrow> sign p x y = 0" for x y
      using flat sign_swap[of p t1 t0] sign_swap[of p t2 t1] sign_swap[of p t0 t2]
      by (auto simp: sign_same)
    have "Min (set (map fst [t0, t1, t2])) \<in> set (map fst [t0, t1, t2])"
      by (rule Min_in) simp_all
    with lowu have "fst t0 < 1 \<or> fst t1 < 1 \<or> fst t2 < 1" by auto
    then obtain a where a: "a \<in> {t0, t1, t2}" "fst a < 1" by blast
    have "Min (set (map snd [t0, t1, t2])) \<in> set (map snd [t0, t1, t2])"
      by (rule Min_in) simp_all
    with lowv have "snd t0 < 1 \<or> snd t1 < 1 \<or> snd t2 < 1" by auto
    then obtain b where b: "b \<in> {t0, t1, t2}" "snd b < 1" by blast
    from vert[OF a(1)] out have "\<not> in_unit_square a" "non_negative a"
      unfolding outside_unit_square_def by blast+
    with a(2) have ay: "1 < snd a" by (simp add: in_unit_square_def non_negative_def)
    from vert[OF b(1)] out have "\<not> in_unit_square b" "non_negative b"
      unfolding outside_unit_square_def by blast+
    with b(2) have bx: "1 < fst b" and by0: "0 \<le> snd b"
      by (simp_all add: in_unit_square_def non_negative_def)
    define l where "l = (1 - fst a) / (fst b - fst a)"
    have D: "0 < fst b - fst a" using a(2) bx by simp
    have l: "0 \<le> l" "l \<le> 1" using a(2) bx D by (simp_all add: l_def)
    let ?m = "((1 - l) * fst a + l * fst b, (1 - l) * snd a + l * snd b)"
    have "in_triangle t0 t1 t2 ?m"
      using vert[OF a(1)] vert[OF b(1)] l by (intro in_triangle_convex) simp_all
    with out have nm: "\<not> in_unit_square ?m" unfolding outside_unit_square_def by blast
    have mx: "(1 - l) * fst a + l * fst b = 1"
    proof -
      have "(1 - l) * fst a + l * fst b = fst a + l * (fst b - fst a)" by (simp add: algebra_simps)
      also have "\<dots> = 1" using D by (simp add: l_def)
      finally show ?thesis .
    qed
    have my0: "0 \<le> (1 - l) * snd a + l * snd b" using l ay by0 by simp
    from nm mx my0 have my: "1 < (1 - l) * snd a + l * snd b" by (simp add: in_unit_square_def)
    have "(fst b - fst a) * ((1 - l) * snd a + l * snd b)
            = (fst b - 1) * snd a + (1 - fst a) * snd b"
    proof -
      have e1: "(fst b - fst a) * l = 1 - fst a" using D by (simp add: l_def)
      have "(fst b - fst a) * ((1 - l) * snd a + l * snd b)
            = ((fst b - fst a) - (fst b - fst a) * l) * snd a + ((fst b - fst a) * l) * snd b"
        by (simp add: algebra_simps)
      also have "\<dots> = (fst b - 1) * snd a + (1 - fst a) * snd b" unfolding e1 by simp
      finally show ?thesis .
    qed
    moreover have "(fst b - fst a) * 1 < (fst b - fst a) * ((1 - l) * snd a + l * snd b)"
      using D my by (simp only: mult_less_cancel_left_pos)
    ultimately have mid: "fst b - fst a < (fst b - 1) * snd a + (1 - fst a) * snd b" by simp
    from coll[OF a(1) b(1)]
    have c: "(fst p - fst b) * (snd a - snd b) - (fst a - fst b) * (snd p - snd b) = 0"
      by (simp add: sign_def)
    from p have "fst p \<le> 1" "snd p \<le> 1" by (simp_all add: in_unit_square_def)
    from beyond_corner[OF a(2) ay bx b(2) c this mid] show False .
  qed
qed

lemma fold_err_same: "(\<And>x s. x \<in> set xs \<Longrightarrow> f x s = Inr s) \<Longrightarrow> fold_err f xs s = Inr s"
  by (induction xs) simp_all

lemma py_range_mem: "u \<in> set (py_range a b) \<longleftrightarrow> a \<le> u \<and> u < b"
  by (auto simp: py_range_def)

lemma py_int_nonneg: "0 \<le> x \<Longrightarrow> py_int x = \<lfloor>x\<rfloor>"
  by (simp add: py_int_def)

lemma in_range_unit:
  assumes "0 \<le> m" "0 < res" "u \<in> set (py_range (py_int (m * real_of_int res)) (min b res))"
  shows "0 \<le> real_of_int u / real_of_int res" "real_of_int u / real_of_int res \<le> 1" "m < 1"
proof -
  from assms(1,2) have mr: "0 \<le> m * real_of_int res" by simp
  from assms(3) have u: "\<lfloor>m * real_of_int res\<rfloor> \<le> u" "u < res"
    by (simp_all add: py_range_mem py_int_nonneg[OF mr])
  from mr have "0 \<le> \<lfloor>m * real_of_int res\<rfloor>" by (simp only: zero_le_floor)
  with u(1) have u0: "0 \<le> u" by linarith
  with assms(2) show "0 \<le> real_of_int u / real_of_int res" by simp
  from u(2) assms(2) show "real_of_int u / real_of_int res \<le> 1" by simp
  from u have "\<lfloor>m * real_of_int res\<rfloor> < res" by simp
  then have "m * real_of_int res < real_of_int res" by (simp add: floor_less_iff)
  with assms(2) show "m < 1" by simp
qed

lemma outside_sample_face:
  assumes out: "outside_unit_square t0 t1 t2"
    and nn: "non_negative t0" "non_negative t1" "non_negative t2"
    and res: "0 < res"
  shows "sample_face res [t0, t1, t2] g = Inr (g, 0)"
proof -
  let ?uvs = "[t0, t1, t2]"
  let ?mu = "Min (set (map fst ?uvs))" and ?mv = "Min (set (map snd ?uvs))"
  have "?mu \<in> set (map fst ?uvs)" by (rule Min_in) simp_all
  with nn have mu0: "0 \<le> ?mu" by (auto simp: non_negative_def)
  have "?mv \<in> set (map snd ?uvs)" by (rule Min_in) simp_all
  with nn have mv0: "0 \<le> ?mv" by (auto simp: non_negative_def)
  have cell: "sample_cell res ?uvs u v st = Inr st"
    if u: "u \<in> set (u_range res ?uvs)" and v: "v \<in> set (v_range res ?uvs)" for u v st
  proof -
    note ub = in_range_unit[OF mu0 res u[unfolded u_range_def]]
    note vb = in_range_unit[OF mv0 res v[unfolded v_range_def]]
    have "in_unit_square (vector (real_of_int u / real_of_int res) (real_of_int v / real_of_int res))"
      using f32_unit[OF ub(1,2)] f32_unit[OF vb(1,2)] by (simp add: in_unit_square_def vector_def)
    from outside_test_false[OF out nn this ub(3) vb(3)] res show ?thesis
      by (simp add: sample_cell_def py_div_def)
  qed
  have "fold_err (\<lambda>u. fold_err (sample_cell res ?uvs u) (v_range res ?uvs))
          (u_range res ?uvs) (g, 0) = Inr (g, 0)"
    by (intro fold_err_same cell)
  then show ?thesis
    by (simp add: sample_face_def py_min_Min py_max_Max u_range_def v_range_def)
qed

lemma point_sample_face:
  assumes sq: "square_grid res g" and res: "0 < res"
    and q: "0 \<le> fst q" "fst q < 1" "0 \<le> snd q" "snd q < 1"
  shows "sample_face res [q, q, q] g =
           Inr (if g ! nat (py_int (snd q * real_of_int res)) ! nat (py_int (fst q * real_of_int res)) = 0
                then (g[nat (py_int (snd q * real_of_int res)) :=
                        (g ! nat (py_int (snd q * real_of_int res)))
                          [nat (py_int (fst q * real_of_int res)) := 1]], 1)
                else (g, 0))"
proof -
  let ?a = "py_int (fst q * real_of_int res)" and ?b = "py_int (snd q * real_of_int res)"
  have a: "0 \<le> ?a" "?a < res"
    using q(1,2) res by (simp_all add: py_int_def floor_less_iff)
  have b: "0 \<le> ?b" "?b < res"
    using q(3,4) res by (simp_all add: py_int_def floor_less_iff)
  have ur: "py_range ?a (min (?a + 1) res) = [?a]" using a by (simp add: py_range_def upto_rec1)
  have vr: "py_range ?b (min (?b + 1) res) = [?b]" using b by (simp add: py_range_def upto_rec1)
  from sq have len: "length g = nat res" by (simp add: square_grid_def)
  have rb: "nat ?b < nat res" using b by simp
  have lenr: "length (g ! nat ?b) = nat res" using square_grid_nth(2)[OF sq rb rb] .
  have ib: "py_index (nat res) ?b = Inr (nat ?b)" using b by (simp add: py_index_def)
  have ia: "py_index (nat res) ?a = Inr (nat ?a)" using a by (simp add: py_index_def)
  have "sample_cell res [q, q, q] ?a ?b (g, 0) =
          Inr (if g ! nat ?b ! nat ?a = 0
               then (g[nat ?b := (g ! nat ?b)[nat ?a := 1]], 1) else (g, 0))"
    using res by (simp add: sample_cell_def py_div_def point_in_collapsed_triangle len lenr ia ib)
  then show ?thesis
    by (simp add: sample_face_def py_min_def py_max_def ur vr)
qed

lemma face_step_unmarked:
  "sample_face res (uv_coords f) g = Inr (g, 0) \<Longrightarrow> face_step res w h f (g, ts) = Inr (g, ts)"
  by (simp add: face_step_def)

lemma texel_size_one:
  "0 < res \<Longrightarrow> 0 < w \<Longrightarrow> 0 < h \<Longrightarrow>
   texel_size res w h area 1 =
     Inr (sqrt (area / (1 * (real_of_int w / real_of_int res) * (real_of_int h / real_of_int res))))"
  by (simp add: texel_size_def py_div_def)

lemma flat_test:
  assumes "sign t2 t0 t1 = 0"
  shows "(point_in_triangle_uv p [t0, t1, t2] = Inr True)
           = (sign p t0 t1 = 0 \<and> sign p t1 t2 = 0 \<and> sign p t2 t0 = 0)"
proof
  assume "point_in_triangle_uv p [t0, t1, t2] = Inr True"
  then show "sign p t0 t1 = 0 \<and> sign p t1 t2 = 0 \<and> sign p t2 t0 = 0"
    using assms by (rule test_true_flat)
next
  assume "sign p t0 t1 = 0 \<and> sign p t1 t2 = 0 \<and> sign p t2 t0 = 0"
  then show "point_in_triangle_uv p [t0, t1, t2] = Inr True"
    by (simp add: point_in_triangle_uv_def)
qed

lemma beyond_corner_outside: "outside_unit_square (1 / 2, 2) (2, 1 / 2) (2, 2)"
  unfolding outside_unit_square_def in_triangle_def in_unit_square_def
proof (intro allI impI)
  fix p :: uv
  assume "\<exists>a b c. 0 \<le> a \<and> 0 \<le> b \<and> 0 \<le> c \<and> a + b + c = 1 \<and>
            fst p = a * fst (1 / 2 :: real, 2 :: real) + b * fst (2 :: real, 1 / 2 :: real) + c * fst (2 :: real, 2 :: real) \<and>
            snd p = a * snd (1 / 2 :: real, 2 :: real) + b * snd (2 :: real, 1 / 2 :: real) + c * snd (2 :: real, 2 :: real)"
  then obtain a b c where "0 \<le> a" "0 \<le> b" "0 \<le> c" "a + b + c = 1"
    "fst p = a * (1 / 2) + b * 2 + c * 2" "snd p = a * 2 + b * (1 / 2) + c * 2" by auto
  then show "\<not> (0 \<le> fst p \<and> fst p \<le> 1 \<and> 0 \<le> snd p \<and> snd p \<le> 1)" by linarith
qed




text \<open>
  On a \<open>6 \<times> 6\<close> texture the sample points \<open>(1/3, 2/3)\<close> and \<open>(2/3, 1/3)\<close> are rounded
  to 32-bit floats whose sum exceeds 1, so they fall outside the face with the UV points
  \<open>(0, 0)\<close>, \<open>(1, 0)\<close>, \<open>(0, 1)\<close>, which occupies six cells.
\<close>

lemma f32_two_thirds: "f32 (2 / 3) = 11184811 / 16777216"
proof -
  have "ulp32 (2 / 3) = 2 powr (of_int (- 1) - 23)"
    by (rule ulp32_eval) (simp_all add: powr_minus)
  then have u: "ulp32 (2 / 3) = 1 / 16777216"
    by (simp add: powr_minus field_simps)
  have "round_even (33554432 / 3) = 11184811"
    by (simp add: round_even_def Let_def)
  then show ?thesis unfolding f32_def u by simp
qed

lemma grid_resolution_6: "grid_resolution 6 6 = 3"
  by (simp add: grid_resolution_def py_int_def fraction_def)

lemma rasterize_six:
  "rasterize 6 6 [corner_face] = Inr ([[1, 1, 1], [1, 1, 0], [1, 0, 0]], [1 / sqrt 24])"
  by (simp add: rasterize_def grid_resolution_6 face_step_def texel_size_def sample_face_def
  py_min_def py_max_def py_int_def py_range_def new_grid_def sample_cell_def py_div_def
  point_in_triangle_uv_def sign_def py_index_def upto.simps numeral_3_eq_3 real_sqrt_divide
  vector_def f32_zero f32_third f32_two_thirds corner_face_def)




text \<open>
  C4, as the code has it, on a grid of \<open>res\<close> rows of \<open>res\<close> cells. A face with three
  non-negative UV points whose footprint lies outside the UV range, and a face whose UV
  points all have \<open>u \<ge> 1\<close> or all have \<open>v \<ge> 1\<close>, marks no cell and appends no texel
  size. A face of zero area is sampled like any other: a point passes the
  point-in-triangle test exactly when all three signs are zero, as they are at every point
  when the three UV points coincide. A face whose UV points coincide at a point of
  \<open>[0, 1) \<times> [0, 1)\<close> occupies the cell of that point when it is free, and then appends
  the texel size of one cell; when the cell is occupied it changes nothing.
\<close>

theorem degenerate_and_outside_faces:
  assumes sq: "square_grid res g" and res: "0 < res"
  shows "(uv_coords f = [t0, t1, t2] \<and> non_negative t0 \<and> non_negative t1 \<and> non_negative t2 \<and>
          outside_unit_square t0 t1 t2 \<longrightarrow>
            sample_face res (uv_coords f) g = Inr (g, 0) \<and>
            face_step res w h f (g, ts) = Inr (g, ts)) \<and>
         (uv_coords f \<noteq> [] \<and>
          ((\<forall>p \<in> set (uv_coords f). 1 \<le> fst p) \<or> (\<forall>p \<in> set (uv_coords f). 1 \<le> snd p)) \<longrightarrow>
            sample_face res (uv_coords f) g = Inr (g, 0) \<and>
            face_step res w h f (g, ts) = Inr (g, ts)) \<and>
         (sign t2 t0 t1 = 0 \<longrightarrow>
            (point_in_triangle_uv p [t0, t1, t2] = Inr True)
              = (sign p t0 t1 = 0 \<and> sign p t1 t2 = 0 \<and> sign p t2 t0 = 0)) \<and>
         (uv_coords f = [q, q, q] \<and> 0 \<le> fst q \<and> fst q < 1 \<and> 0 \<le> snd q \<and> snd q < 1 \<longrightarrow>
            (g ! nat (py_int (snd q * real_of_int res)) ! nat (py_int (fst q * real_of_int res)) = 0 \<longrightarrow>
               sample_face res (uv_coords f) g =
                 Inr (g[nat (py_int (snd q * real_of_int res)) :=
                        (g ! nat (py_int (snd q * real_of_int res)))
                          [nat (py_int (fst q * real_of_int res)) := 1]], 1) \<and>
               (0 < w \<and> 0 < h \<longrightarrow>
                  face_step res w h f (g, ts) =
                    Inr (g[nat (py_int (snd q * real_of_int res)) :=
                           (g ! nat (py_int (snd q * real_of_int res)))
                             [nat (py_int (fst q * real_of_int res)) := 1]],
                         ts @ [sqrt (face_area f /
                                 (1 * (real_of_int w / real_of_int res)
                                    * (real_of_int h / real_of_int res)))]))) \<and>
            (g ! nat (py_int (snd q * real_of_int res)) ! nat (py_int (fst q * real_of_int res)) \<noteq> 0 \<longrightarrow>
               sample_face res (uv_coords f) g = Inr (g, 0) \<and>
               face_step res w h f (g, ts) = Inr (g, ts)))"
proof (intro conjI impI)
  assume a: "uv_coords f = [t0, t1, t2] \<and> non_negative t0 \<and> non_negative t1 \<and> non_negative t2 \<and>
          outside_unit_square t0 t1 t2"
  then show s: "sample_face res (uv_coords f) g = Inr (g, 0)"
    using outside_sample_face[of t0 t1 t2 res g] res by simp
  then show "face_step res w h f (g, ts) = Inr (g, ts)" by (rule face_step_unmarked)
next
  assume a: "uv_coords f \<noteq> [] \<and>
          ((\<forall>p \<in> set (uv_coords f). 1 \<le> fst p) \<or> (\<forall>p \<in> set (uv_coords f). 1 \<le> snd p))"
  then show s: "sample_face res (uv_coords f) g = Inr (g, 0)"
    using sample_face_beyond[of "uv_coords f" res g] res by simp
  then show "face_step res w h f (g, ts) = Inr (g, ts)" by (rule face_step_unmarked)
next
  assume "sign t2 t0 t1 = 0"
  then show "(point_in_triangle_uv p [t0, t1, t2] = Inr True)
              = (sign p t0 t1 = 0 \<and> sign p t1 t2 = 0 \<and> sign p t2 t0 = 0)"
    by (rule flat_test)
next
  assume a: "uv_coords f = [q, q, q] \<and> 0 \<le> fst q \<and> fst q < 1 \<and> 0 \<le> snd q \<and> snd q < 1"
    and free: "g ! nat (py_int (snd q * real_of_int res)) ! nat (py_int (fst q * real_of_int res)) = 0"
  from a have q: "0 \<le> fst q" "fst q < 1" "0 \<le> snd q" "snd q < 1" by simp_all
  from point_sample_face[OF sq res q] a free
  show s: "sample_face res (uv_coords f) g =
                 Inr (g[nat (py_int (snd q * real_of_int res)) :=
                        (g ! nat (py_int (snd q * real_of_int res)))
                          [nat (py_int (fst q * real_of_int res)) := 1]], 1)" by simp
  assume "0 < w \<and> 0 < h"
  with s res show "face_step res w h f (g, ts) =
                    Inr (g[nat (py_int (snd q * real_of_int res)) :=
                           (g ! nat (py_int (snd q * real_of_int res)))
                             [nat (py_int (fst q * real_of_int res)) := 1]],
                         ts @ [sqrt (face_area f /
                                 (1 * (real_of_int w / real_of_int res)
                                    * (real_of_int h / real_of_int res)))])"
    by (simp add: face_step_def texel_size_def py_div_def)
next
  assume a: "uv_coords f = [q, q, q] \<and> 0 \<le> fst q \<and> fst q < 1 \<and> 0 \<le> snd q \<and> snd q < 1"
    and occ: "g ! nat (py_int (snd q * real_of_int res)) ! nat (py_int (fst q * real_of_int res)) \<noteq> 0"
  from a have q: "0 \<le> fst q" "fst q < 1" "0 \<le> snd q" "snd q < 1" by simp_all
  from point_sample_face[OF sq res q] a occ
  show s: "sample_face res (uv_coords f) g = Inr (g, 0)" by simp
  then show "face_step res w h f (g, ts) = Inr (g, ts)" by (rule face_step_unmarked)
qed

theorem degenerate_and_outside_faces_witness:
  "sample_face 2 (uv_coords point_face) [[0, 0], [0, 0]] = Inr ([[1, 0], [0, 0]], 1) \<and>
   face_step 2 4 4 point_face ([[0, 0], [0, 0]], []) = Inr ([[1, 0], [0, 0]], [0]) \<and>
   face_step 2 4 4 beyond_corner_face ([[0, 0], [0, 0]], []) = Inr ([[0, 0], [0, 0]], []) \<and>
   face_step 2 4 4 far_face ([[0, 0], [0, 0]], []) = Inr ([[0, 0], [0, 0]], [])"
proof -
  have sq: "square_grid 2 [[0, 0], [0, 0]]" by (simp add: square_grid_def)
  have r: "(0::int) < 2" by simp
  note t = degenerate_and_outside_faces[OF sq r]
  have 1: "sample_face 2 (uv_coords point_face) [[0, 0], [0, 0]] = Inr ([[1, 0], [0, 0]], 1)"
    "face_step 2 4 4 point_face ([[0, 0], [0, 0]], []) = Inr ([[1, 0], [0, 0]], [0])"
    using t[where f = point_face and q = "(1 / 4, 1 / 4)" and w = 4 and h = 4 and ts = "[]"]
    by (simp_all add: point_face_def py_int_def)
  have 2: "face_step 2 4 4 beyond_corner_face ([[0, 0], [0, 0]], []) = Inr ([[0, 0], [0, 0]], [])"
    using t[where f = beyond_corner_face and ?t0.0 = "(1 / 2, 2)" and ?t1.0 = "(2, 1 / 2)"
        and ?t2.0 = "(2, 2)" and w = 4 and h = 4 and ts = "[]"] beyond_corner_outside
    by (simp add: beyond_corner_face_def non_negative_def)
  have 3: "face_step 2 4 4 far_face ([[0, 0], [0, 0]], []) = Inr ([[0, 0], [0, 0]], [])"
    using t[where f = far_face and w = 4 and h = 4 and ts = "[]"]
    by (simp add: far_face_def)
  from 1 2 3 show ?thesis by simp
qed

text \<open>
  Against C4 as stated: the face whose UV points coincide at \<open>(1/4, 1/4)\<close>, on a \<open>4 \<times> 4\<close> texture, marks the
  cell \<open>(0, 0)\<close> and appends a texel size.
\<close>

theorem point_face_marks_cell:
  "rasterize 4 4 [point_face] = Inr ([[1, 0], [0, 0]], [0]) \<and> occupied [[1, 0], [0, 0]] = 1"
  by (simp add: run_face point_face_def occupied_def)

section \<open>Properties of the statistics\<close>

text \<open>
  C1. For a mesh with no active UV layer or no bound texture the texel function returns
  a pair, and \<open>calculate_statistics\<close>, which unpacks three values, ends in ValueError
  instead of returning \<^verbatim>\<open>None\<close>; \<open>process_glb_file\<close> does not catch it.
\<close>

theorem calculate_statistics_without_texture:
  assumes "\<not> uv_layer obj \<or> find_image obj = None"
  shows "calculate_texel_sizes_and_utilization obj = Inr (Pair2 [] 0) \<and>
         calculate_statistics obj = Inl ValueError \<and>
         (is_file ld p \<and> import_gltf ld p = Some objs \<and> first_mesh objs = Some obj
            \<longrightarrow> process_glb_file ld p = Inl ValueError)"
proof -
  from assms have a: "calculate_texel_sizes_and_utilization obj = Inr (Pair2 [] 0)"
    by (auto simp: calculate_texel_sizes_and_utilization_def)
  then have b: "calculate_statistics obj = Inl ValueError"
    by (simp add: calculate_statistics_def)
  then have "is_file ld p \<and> import_gltf ld p = Some objs \<and> first_mesh objs = Some obj
            \<longrightarrow> process_glb_file ld p = Inl ValueError"
    by (simp add: process_glb_file_def)
  with a b show ?thesis by simp
qed

theorem calculate_statistics_without_texture_witness:
  "calculate_statistics bare_obj = Inl ValueError \<and>
   process_glb_file one_mesh_loader (str ''data/tile_0.glb'') = Inl ValueError"
  using calculate_statistics_without_texture
          [of bare_obj one_mesh_loader "str ''data/tile_0.glb''" "[Other, Mesh bare_obj]"]
  by (simp add: bare_obj_def one_mesh_loader_def)

section \<open>Properties of the traversal\<close>

text \<open>
  C2. A node that has a child and no content, or whose content is a nested document that
  was traversed without error, ends in UnboundLocalError: \<^verbatim>\<open>tile_id\<close> is read for the
  child and was never assigned.
\<close>

theorem children_without_own_descriptor:
  assumes "children tile = Some (c # cs)"
  shows "(content tile = None \<longrightarrow>
            process_tile_structure (Suc n) env tile parent lod base st = Inl UnboundLocalError) \<and>
         (content tile = Some \<lparr> uri = Some u, url = None \<rparr> \<and> u \<noteq> [] \<and> \<not> contains u (str ''{level}'') \<and>
          endswith u (str ''.json'') \<and> read_tileset env (path_join base u) = Some nested \<and>
          process_tile_structure n env (case root_tile nested of None \<Rightarrow> empty_tile | Some r \<Rightarrow> r)
             parent lod (dirname (path_join base u)) st = Inr st'
          \<longrightarrow> process_tile_structure (Suc n) env tile parent lod base st = Inl UnboundLocalError)"
  using assms by (simp add: truthy_def)

theorem children_without_own_descriptor_witness:
  "process_tile_structure (Suc (Suc 0)) grid_env scenario_root None 0 (str ''data'') (0, [])
     = Inl UnboundLocalError"
  using children_without_own_descriptor
          [of scenario_root leaf_tile "[]" "Suc 0" grid_env None 0 "str ''data''" "(0, [])"]
  by (simp add: scenario_root_def)

lemma not_digit_slash: "\<not> is_digit db (of_char CHR ''/'')"
  and not_digit_dot: "\<not> is_digit db (of_char CHR ''.'')"
  by (simp_all add: is_digit_def to_decimal_def)

lemma match_lit_append: "match_lit lit (lit @ s) = Some s"
  by (simp add: match_lit_def)

lemma match_digits_run:
  assumes "ds \<noteq> []" "list_all (is_digit db) ds" "\<not> is_digit db c"
  shows "match_digits db (ds @ c # s) = Some (ds, c # s)"
proof -
  from assms have "takeWhile (is_digit db) (ds @ c # s) = ds"
    "dropWhile (is_digit db) (ds @ c # s) = c # s"
    by (simp_all add: list_all_iff)
  with assms(1) show ?thesis by (simp add: match_digits_def)
qed

lemma str_slash: "str ''/'' @ s = of_char CHR ''/'' # s"
  and str_glb: "str ''.glb'' @ s = of_char CHR ''.'' # str ''glb'' @ s"
  by (simp_all add: str_def)

lemma pattern_match_prefix:
  assumes "l \<noteq> []" "list_all (is_digit db) l" "x \<noteq> []" "list_all (is_digit db) x"
    "y \<noteq> []" "list_all (is_digit db) y" "z \<noteq> []" "list_all (is_digit db) z"
  shows "pattern_match db
           (str ''tiles/'' @ l @ str ''/'' @ x @ str ''/'' @ y @ str ''/'' @ z @ str ''.glb'' @ rest)
           = Some (l, x, y, z)"
proof -
  have 1: "match_lit (str ''tiles/'')
             (str ''tiles/'' @ l @ str ''/'' @ x @ str ''/'' @ y @ str ''/'' @ z @ str ''.glb'' @ rest)
     = Some (l @ str ''/'' @ x @ str ''/'' @ y @ str ''/'' @ z @ str ''.glb'' @ rest)"
    by (rule match_lit_append)
  have 2: "match_digits db (l @ str ''/'' @ x @ str ''/'' @ y @ str ''/'' @ z @ str ''.glb'' @ rest)
     = Some (l, str ''/'' @ x @ str ''/'' @ y @ str ''/'' @ z @ str ''.glb'' @ rest)"
    unfolding str_slash[of "x @ str ''/'' @ y @ str ''/'' @ z @ str ''.glb'' @ rest"]
    by (rule match_digits_run[OF assms(1,2) not_digit_slash])
  have 3: "match_lit (str ''/'') (str ''/'' @ s) = Some s" for s by (rule match_lit_append)
  have 4: "match_digits db (x @ str ''/'' @ y @ str ''/'' @ z @ str ''.glb'' @ rest)
     = Some (x, str ''/'' @ y @ str ''/'' @ z @ str ''.glb'' @ rest)"
    unfolding str_slash[of "y @ str ''/'' @ z @ str ''.glb'' @ rest"]
    by (rule match_digits_run[OF assms(3,4) not_digit_slash])
  have 5: "match_digits db (y @ str ''/'' @ z @ str ''.glb'' @ rest)
     = Some (y, str ''/'' @ z @ str ''.glb'' @ rest)"
    unfolding str_slash[of "z @ str ''.glb'' @ rest"]
    by (rule match_digits_run[OF assms(5,6) not_digit_slash])
  have 6: "match_digits db (z @ str ''.glb'' @ rest) = Some (z, str ''.glb'' @ rest)"
    unfolding str_glb
    by (rule match_digits_run[OF assms(7,8) not_digit_dot])
  have 7: "match_lit (str ''.glb'') (str ''.glb'' @ rest) = Some rest" by (rule match_lit_append)
  show ?thesis
    unfolding pattern_match_def by (simp only: 1 2 3 4 5 6 7 option.case prod.case)
qed

text \<open>
  C8. A file whose name ends in \<^verbatim>\<open>.glb\<close> and whose relative path begins with
  \<^verbatim>\<open>tiles/<level>/<x>/<y>/<z>.glb\<close> yields one descriptor with the parsed level and
  coordinates and a fresh id, whatever follows that prefix in the path: with nothing after
  it this is the canonical path, with \<^verbatim>\<open>.glb\<close> after it the file \<^verbatim>\<open>4.glb.glb\<close> is taken
  for the tile \<open>(1, 2, 3, 4)\<close>.
\<close>

theorem scan_file_prefix_match:
  assumes "l \<noteq> []" "list_all (is_digit (decimal env)) l"
    "x \<noteq> []" "list_all (is_digit (decimal env)) x"
    "y \<noteq> []" "list_all (is_digit (decimal env)) y"
    "z \<noteq> []" "list_all (is_digit (decimal env)) z"
    and "endswith file (str ''.glb'')"
    and "relpath env (path_join dir file) base
           = str ''tiles/'' @ l @ str ''/'' @ x @ str ''/'' @ y @ str ''/'' @ z @ str ''.glb'' @ rest"
  shows "scan_file env parent sse base dir file (tid, counter, tiles) =
           (Some (counter + 1), counter + 1,
            tiles @ [\<lparr> lod_level = int_of_digits (decimal env) l, tile_id = counter + 1,
                       parent_id = parent,
                       tile_url = str ''tiles/'' @ l @ str ''/'' @ x @ str ''/'' @ y @ str ''/'' @ z
                                    @ str ''.glb'' @ rest,
                       screen_space_error = sse, base_path = base,
                       xyz = Some (int_of_digits (decimal env) x, int_of_digits (decimal env) y,
                                   int_of_digits (decimal env) z) \<rparr>])"
  using pattern_match_prefix[OF assms(1-8), of rest] assms(9,10)
  by (simp add: scan_file_def get_unique_tile_id_def Let_def)

theorem scan_file_prefix_match_witness:
  "scan_file grid_env None (Some 16) (str ''data'') (str ''data/tiles/1/2/3'') (str ''4.glb.glb'')
     (None, 0, []) =
     (Some 1, 1, [grid_tile 1 1 (str ''tiles/1/2/3/4.glb.glb'') (2, 3, 4)])"
  using scan_file_prefix_match [of "str ''1''" grid_env "str ''2''" "str ''3''" "str ''4''"
          "str ''4.glb.glb''" "str ''data/tiles/1/2/3''" "str ''data''" "str ''.glb''"
          None "Some 16" None 0 "[]"]
  by (simp add: str_def is_digit_def to_decimal_def endswith_def grid_env_def path_join_def
      grid_tile_def int_of_digits_def)

lemma scan_file_skip:
  "\<not> endswith file (str ''.glb'') \<or>
   pattern_match (decimal env) (relpath env (path_join dir file) base) = None
   \<Longrightarrow> scan_file env parent sse base dir file st = st"
  by (auto simp: scan_file_def Let_def)

text \<open>
  Digits beyond ASCII are parsed as \<^verbatim>\<open>re\<close> and \<^verbatim>\<open>int\<close> do: a file named by the
  Arabic-Indic digit four and the fullwidth digit five is the tile \<open>(1, 2, 3, 45)\<close>.
\<close>

lemma scan_file_unicode_digits:
  "scan_file grid_env None (Some 16) (str ''data'') (str ''data/tiles/1/2/3'')
     ([1636, 65301] @ str ''.glb'') (None, 0, []) =
     (Some 1, 1, [grid_tile 1 1 (str ''tiles/1/2/3/'' @ [1636, 65301] @ str ''.glb'') (2, 3, 45)])"
  by (simp add: str_def scan_file_def grid_env_def path_join_def endswith_def pattern_match_def
      match_lit_def match_digits_def is_digit_def to_decimal_def unicode_decimal_def
      decimal_zeros_def int_of_digits_def get_unique_tile_id_def grid_tile_def Let_def)

lemma ids_ok_append:
  "ids_ok c0 (c, tiles) \<Longrightarrow> tile_id d = c + 1 \<Longrightarrow> ids_ok c0 (c + 1, tiles @ [d])"
  by (auto simp: ids_ok_def sorted_wrt_append list_all_iff)

lemma scan_file_ids_ok: "ids_ok c0 (snd st) \<Longrightarrow> ids_ok c0 (snd (scan_file env parent sse base dir file st))"
  by (cases st) (auto simp: scan_file_def Let_def get_unique_tile_id_def intro!: ids_ok_append split: option.splits)

lemma scan_tiles_ids_ok: "ids_ok c0 st \<Longrightarrow> ids_ok c0 (snd (scan_tiles env parent sse base st))"
  unfolding scan_tiles_def
  by (rule fold_invariant[where I = "\<lambda>s. ids_ok c0 (snd s)"])
     (auto intro!: fold_invariant[where I = "\<lambda>s. ids_ok c0 (snd s)"] scan_file_ids_ok)

lemma process_tile_structure_ids_ok:
  "process_tile_structure n env tile parent lod base st = Inr st' \<Longrightarrow> ids_ok c0 st \<Longrightarrow> ids_ok c0 st'"
proof (induction n arbitrary: tile parent lod base st st')
  case 0
  then show ?case by simp
next
  case (Suc n)
  define own where "own =
            (if truthy (uri (case content tile of None \<Rightarrow> \<lparr> uri = None, url = None \<rparr> | Some c \<Rightarrow> c))
                \<and> contains (the (uri (case content tile of None \<Rightarrow> \<lparr> uri = None, url = None \<rparr> | Some c \<Rightarrow> c))) (str ''{level}'')
             then Inr (scan_tiles env parent (geometricError tile) base st)
             else
               (let tile_content = (case content tile of None \<Rightarrow> \<lparr> uri = None, url = None \<rparr> | Some c \<Rightarrow> c);
                    tile_url = (if truthy (uri tile_content) then uri tile_content
                                else url tile_content)
                in if truthy tile_url then
                     (if endswith (the tile_url) (str ''.json'') then
                        (let nested_tileset_path = path_join base (the tile_url)
                         in case read_tileset env nested_tileset_path of
                              None \<Rightarrow> Inl FileNotFoundError
                            | Some nested \<Rightarrow>
                                (case process_tile_structure n env
                                        (case root_tile nested of None \<Rightarrow> empty_tile | Some r \<Rightarrow> r)
                                        parent lod (dirname nested_tileset_path) st of
                                   Inl e \<Rightarrow> Inl e
                                 | Inr st' \<Rightarrow> Inr (None, st')))
                      else if endswith (the tile_url) (str ''.glb'') then
                        (let (counter, tid) = get_unique_tile_id (fst st)
                         in Inr (Some tid, counter, snd st @
                              [\<lparr> lod_level = lod, tile_id = tid, parent_id = parent,
                                 tile_url = the tile_url, screen_space_error = geometricError tile,
                                 base_path = base, xyz = None \<rparr>]))
                      else Inr (None, st))
                   else Inr (None, st)))"
  have eq: "process_tile_structure (Suc n) env tile parent lod base st =
     (case own of
           Inl e \<Rightarrow> Inl e
         | Inr (tid, st') \<Rightarrow>
             (case children tile of
                None \<Rightarrow> Inr st'
              | Some cs \<Rightarrow>
                  fold_err
                    (\<lambda>child s. case tid of
                         None \<Rightarrow> Inl UnboundLocalError
                       | Some t \<Rightarrow> process_tile_structure n env child (Some t) (lod + 1) base s)
                    cs st'))"
    unfolding own_def by (simp add: Let_def)
  from Suc.prems(1) eq obtain tid st1 where own: "own = Inr (tid, st1)"
    by (auto split: sum.splits)
  have st1: "ids_ok c0 st1"
    using own Suc.prems(2) Suc.IH scan_tiles_ids_ok[of c0 st env parent "geometricError tile" base]
    unfolding own_def
    by (cases st) (auto simp: Let_def get_unique_tile_id_def intro!: ids_ok_append
        split: if_splits option.splits sum.splits)
  show ?case
  proof (cases "children tile")
    case None
    with Suc.prems(1) eq own st1 show ?thesis by simp
  next
    case (Some cs)
    with Suc.prems(1) eq own have f: "fold_err
                    (\<lambda>child s. case tid of
                         None \<Rightarrow> Inl UnboundLocalError
                       | Some t \<Rightarrow> process_tile_structure n env child (Some t) (lod + 1) base s)
                    cs st1 = Inr st'" by simp
    show ?thesis
      by (rule fold_err_invariant[where I = "ids_ok c0", OF f st1]) (auto split: option.splits dest: Suc.IH)
  qed
qed

lemma ids_ok_distinct: "ids_ok c0 st \<Longrightarrow> distinct (map tile_id (snd st))"
  unfolding ids_ok_def using strict_sorted_iff by (auto simp: strict_sorted_iff)

lemma load_tileset_Inr:
  assumes "load_tileset limit env c path = Inr (c', tiles)"
  obtains data found where "read_tileset env path = Some data"
    and "process_tile_structure limit env
           (case root_tile data of None \<Rightarrow> empty_tile | Some r \<Rightarrow> r) None 0 (dirname path) (c, [])
         = Inr (c', found)"
    and "tiles = sort_key lod_level found"
  using assms by (auto simp: load_tileset_def split: option.splits sum.splits)

lemma grid_env_load:
  "load_tileset (Suc 0) grid_env 0 (str ''data/tileset.json'') =
     Inr (3, [grid_tile 0 2 (str ''tiles/0/0/0/0.glb'') (0, 0, 0),
              grid_tile 1 1 (str ''tiles/1/0/0/0.glb'') (0, 0, 0),
              grid_tile 1 3 (str ''tiles/1/2/3/4.glb.glb'') (2, 3, 4)])"
  by (simp add: str_def load_tileset_def grid_env_def grid_root_def truthy_def dirname_def
      scan_tiles_def scan_file_def path_join_def endswith_def pattern_match_def match_lit_def
      match_digits_def is_digit_def to_decimal_def int_of_digits_def get_unique_tile_id_def
      grid_tile_def Let_def)

text \<open>
  C9. The ids of the descriptors that \<open>load_tileset\<close> returns are pairwise distinct: each is
  the counter after an increment by one, so each lies above the counter the run started
  with and at most at the counter it ends with.
\<close>

theorem tile_ids_distinct:
  assumes "load_tileset limit env c path = Inr (c', tiles)"
  shows "distinct (map tile_id tiles) \<and> list_all (\<lambda>d. c < tile_id d \<and> tile_id d \<le> c') tiles \<and>
         c < fst (get_unique_tile_id c) \<and> snd (get_unique_tile_id c) = fst (get_unique_tile_id c)"
proof -
  from assms obtain data found where
    run: "process_tile_structure limit env
           (case root_tile data of None \<Rightarrow> empty_tile | Some r \<Rightarrow> r) None 0 (dirname path) (c, [])
         = Inr (c', found)"
    and tiles: "tiles = sort_key lod_level found"
    by (rule load_tileset_Inr)
  have "ids_ok c (c, [])" by (simp add: ids_ok_def)
  with run have ok: "ids_ok c (c', found)" by (rule process_tile_structure_ids_ok)
  then have "distinct (map tile_id found)" using ids_ok_distinct by fastforce
  then have d: "distinct (map tile_id tiles)"
    unfolding tiles distinct_map by (simp add: inj_on_def)
  from ok have "list_all (\<lambda>d. c < tile_id d \<and> tile_id d \<le> c') tiles"
    by (simp add: ids_ok_def tiles list_all_iff)
  with d show ?thesis by (simp add: get_unique_tile_id_def)
qed

theorem tile_ids_distinct_witness:
  "distinct (map tile_id [grid_tile 0 2 (str ''tiles/0/0/0/0.glb'') (0, 0, 0),
              grid_tile 1 1 (str ''tiles/1/0/0/0.glb'') (0, 0, 0),
              grid_tile 1 3 (str ''tiles/1/2/3/4.glb.glb'') (2, 3, 4)])"
  using tile_ids_distinct [OF grid_env_load] by simp



section \<open>Properties of the report\<close>

lemma map_of_group_map:
  "map_of (map (\<lambda>(k, grp). if k = l then (k, grp @ [x]) else (k, grp)) G) k' =
     (if k' = l then map_option (\<lambda>g. g @ [x]) (map_of G l) else map_of G k')"
  by (induction G) auto

lemma fst_group_map:
  "map fst (map (\<lambda>(k, grp). if k = l then (k, grp @ [x]) else (k, grp)) G) = map fst G"
  by (induction G) auto

lemma group_add_keys:
  assumes "distinct (map fst G)"
  shows "distinct (map fst (group_add x G)) \<and>
         set (map fst (group_add x G)) = insert (lod_level x) (set (map fst G))"
proof (cases "map_of G (lod_level x)")
  case None
  then have "lod_level x \<notin> set (map fst G)" by (simp add: map_of_eq_None_iff)
  with None assms show ?thesis by (simp add: group_add_def)
next
  case (Some g)
  then have "(lod_level x, g) \<in> set G" by (rule map_of_SomeD)
  then have "lod_level x \<in> set (map fst G)" by force
  then have "insert (lod_level x) (set (map fst G)) = set (map fst G)" by blast
  with Some assms show ?thesis by (simp only: group_add_def option.case fst_group_map simp_thms)
qed

lemma group_add_map_of:
  "map_of (group_add x G) k =
     (if k = lod_level x
      then Some ((case map_of G k of None \<Rightarrow> [] | Some g \<Rightarrow> g) @ [x])
      else map_of G k)"
  by (auto simp: group_add_def map_of_group_map map_add_def split: option.splits)

lemma lod_groups_snoc: "lod_groups (xs @ [x]) = group_add x (lod_groups xs)"
  by (simp add: lod_groups_def)

lemma lod_groups_spec:
  "distinct (map fst (lod_groups results)) \<and>
   set (map fst (lod_groups results)) = lod_level ` set results \<and>
   (\<forall>k. map_of (lod_groups results) k =
      (if k \<in> lod_level ` set results then Some (group_of results k) else None))"
proof (induction results rule: rev_induct)
  case Nil
  then show ?case by (simp add: lod_groups_def)
next
  case (snoc x xs)
  then have d: "distinct (map fst (lod_groups xs))"
    and s: "set (map fst (lod_groups xs)) = lod_level ` set xs"
    and m: "\<And>k. map_of (lod_groups xs) k =
      (if k \<in> lod_level ` set xs then Some (group_of xs k) else None)"
    by simp_all
  have g0: "group_of xs (lod_level x) = []" if "lod_level x \<notin> lod_level ` set xs"
    using that by (force simp: group_of_def filter_empty_conv image_iff)
  have "map_of (lod_groups (xs @ [x])) k =
      (if k \<in> lod_level ` set (xs @ [x]) then Some (group_of (xs @ [x]) k) else None)" for k
    unfolding lod_groups_snoc group_add_map_of m
    using g0 by (auto simp: group_of_def)
  then show ?case
    unfolding lod_groups_snoc using group_add_keys[OF d, of x] s
    by auto
qed

lemma strict_sorted_fst_unique:
  "sorted_wrt (<) (map fst xs) \<Longrightarrow> sorted_wrt (<) (map fst ys) \<Longrightarrow> set xs = set ys \<Longrightarrow> xs = ys"
  for xs ys :: "(int \<times> 'a) list"
proof (induction xs arbitrary: ys)
  case Nil
  then show ?case by simp
next
  case (Cons x xs)
  then obtain y ys' where ys: "ys = y # ys'" by (cases ys) auto
  have xy: "x = y"
  proof (rule ccontr)
    assume ne: "x \<noteq> y"
    with Cons.prems(3) ys have "x \<in> set ys'" "y \<in> set xs" by auto
    with Cons.prems(1,2) ys have "fst y < fst x" "fst x < fst y" by auto
    then show False by simp
  qed
  from Cons.prems(1) have "x \<notin> set xs" by auto
  moreover from Cons.prems(2) ys have "y \<notin> set ys'" by auto
  ultimately have "set xs = set ys'" using Cons.prems(3) ys xy by auto
  with Cons.IH[of ys'] Cons.prems(1,2) ys xy show ?case by simp
qed

lemma map_fst_insort_key: "map fst (insort_key fst x xs) = insort (fst x) (map fst xs)"
  by (induction xs) auto

lemma map_fst_sort_key: "map fst (sort_key fst xs) = sort (map fst xs)"
  by (induction xs) (simp_all add: map_fst_insort_key)

lemma sorted_groups:
  "sort_key fst (lod_groups results) =
     map (\<lambda>k. (k, group_of results k)) (sorted_list_of_set (lod_level ` set results))"
proof (rule strict_sorted_fst_unique)
  note spec = lod_groups_spec[of results]
  have "distinct (sort (map fst (lod_groups results)))" using spec by simp
  then show "sorted_wrt (<) (map fst (sort_key fst (lod_groups results)))"
    by (simp add: strict_sorted_iff map_fst_sort_key)
  have "map fst (map (\<lambda>k. (k, group_of results k)) (sorted_list_of_set (lod_level ` set results)))
        = sorted_list_of_set (lod_level ` set results)"
    by (simp add: comp_def)
  then show "sorted_wrt (<) (map fst (map (\<lambda>k. (k, group_of results k))
       (sorted_list_of_set (lod_level ` set results))))"
    by (simp add: strict_sorted_iff del: map_map)
  have "(k, g) \<in> set (lod_groups results) \<longleftrightarrow> k \<in> lod_level ` set results \<and> g = group_of results k" for k g
  proof -
    from spec have d: "distinct (map fst (lod_groups results))" by simp
    show ?thesis using spec map_of_eq_Some_iff[OF d, of k g] by (auto split: if_splits)
  qed
  then show "set (sort_key fst (lod_groups results)) =
    set (map (\<lambda>k. (k, group_of results k)) (sorted_list_of_set (lod_level ` set results)))"
    by auto
qed

lemma py_add_numbers:
  assumes "is_number a" "is_number v"
  shows "\<exists>s. py_add a v = Inr s \<and> is_number s \<and> (\<forall>vs. combine s vs = combine a (v # vs))"
proof (cases a)
  case (PInt i)
  with assms(2) show ?thesis by (cases v) (simp_all add: combine_def)
next
  case (PFloat x)
  with assms(2) show ?thesis by (cases v) (simp_all add: combine_def)
qed (use assms in simp_all)

lemma py_add_no_number: "\<not> is_number v \<Longrightarrow> py_add a v = Inl TypeError"
  by (cases v; cases a) simp_all

lemma field_get_value: "is_number (value_of r key) \<Longrightarrow> field_get r key = Inr (value_of r key)"
  by (auto simp: field_get_def value_of_def split: option.splits)

lemma field_get_Inr: "field_get r key = Inr v \<Longrightarrow> value_of r key = v"
  by (auto simp: field_get_def value_of_def split: option.splits)

lemma sum_fold_numbers:
  assumes "is_number acc" "list_all is_number (column key grp)"
  shows "fold_err (\<lambda>r acc. case field_get r key of Inl e \<Rightarrow> Inl e | Inr v \<Rightarrow> py_add acc v) grp acc
           = Inr (combine acc (column key grp))"
  using assms
proof (induction grp arbitrary: acc)
  case Nil
  then show ?case by (cases acc) (simp_all add: combine_def column_def)
next
  case (Cons r grp)
  from Cons.prems(2) have v: "is_number (value_of r key)" and rest: "list_all is_number (column key grp)"
    by (simp_all add: column_def)
  from py_add_numbers[OF Cons.prems(1) v] obtain s where
    s: "py_add acc (value_of r key) = Inr s" "is_number s"
       "\<And>vs. combine s vs = combine acc (value_of r key # vs)" by blast
  from Cons.IH[OF s(2) rest] s(1,3) v show ?case
    by (simp add: field_get_value column_def)
qed

lemma sum_fold_fails:
  assumes "\<not> list_all is_number (column key grp)"
  shows "\<exists>e. fold_err (\<lambda>r acc. case field_get r key of Inl e \<Rightarrow> Inl e | Inr v \<Rightarrow> py_add acc v) grp acc
           = Inl e"
  using assms
proof (induction grp arbitrary: acc)
  case Nil
  then show ?case by (simp add: column_def)
next
  case (Cons r grp)
  show ?case
  proof (cases "is_number (value_of r key)")
    case True
    with Cons.prems have "\<not> list_all is_number (column key grp)" by (simp add: column_def)
    from Cons.IH[OF this] show ?thesis by (auto split: sum.splits)
  next
    case False
    then show ?thesis by (auto simp: py_add_no_number dest: field_get_Inr split: sum.splits)
  qed
qed

lemma sum_key_numbers:
  "list_all is_number (column key grp) \<Longrightarrow> sum_key key grp = Inr (exact_sum (column key grp))"
  using sum_fold_numbers[of "PInt 0" key grp] by (simp add: sum_key_def combine_def exact_sum_def)

lemma sum_key_fails: "\<not> list_all is_number (column key grp) \<Longrightarrow> \<exists>e. sum_key key grp = Inl e"
  unfolding sum_key_def by (rule sum_fold_fails)

lemma int_values: "list_all is_int vs \<Longrightarrow> real_of_int (sum_list (map int_val vs)) = sum_list (map num_val vs)"
proof (induction vs)
  case Nil
  then show ?case by simp
next
  case (Cons v vs)
  then show ?case by (cases v) simp_all
qed

lemma mean_of_sum:
  assumes "0 < n"
  shows "py_truediv (exact_sum vs) n = Inr (PFloat (sum_list (map num_val vs) / real n))"
  using assms by (simp add: exact_sum_def int_values)

lemma map_of_replace:
  "map_of (map (\<lambda>(k, w). if k = key then (k, v) else (k, w)) xs) k' =
     (if k' = key then map_option (\<lambda>w. v) (map_of xs key) else map_of xs k')"
  by (induction xs) auto

lemma fst_replace: "map fst (map (\<lambda>(k, w). if k = key then (k, v) else (k, w)) xs) = map fst xs"
  by (induction xs) auto

lemma field_set_map_of: "map_of (entries (field_set key v r)) = (map_of (entries r))(key \<mapsto> v)"
proof (cases "key \<in> fst ` set (entries r)")
  case True
  then obtain w where "map_of (entries r) key = Some w"
    by (metis map_of_eq_None_iff not_Some_eq)
  with True show ?thesis by (auto simp: field_set_def map_of_replace)
next
  case False
  then have "map_of (entries r) key = None" by (simp add: map_of_eq_None_iff)
  with False show ?thesis by (auto simp: field_set_def map_add_def split: option.splits)
qed

lemma field_set_keys:
  "set (map fst (entries (field_set key v r))) = insert key (set (map fst (entries r)))"
proof (cases "key \<in> fst ` set (entries r)")
  case True
  then have "entries (field_set key v r) = map (\<lambda>(k, w). if k = key then (k, v) else (k, w)) (entries r)"
    by (simp add: field_set_def)
  then have "map fst (entries (field_set key v r)) = map fst (entries r)"
    by (simp only: fst_replace)
  with True show ?thesis by auto
next
  case False
  then show ?thesis by (simp add: field_set_def)
qed

lemma field_set_ident:
  "lod_level (field_set key v r) = lod_level r" "tile_id (field_set key v r) = tile_id r"
  by (simp_all add: field_set_def)

lemma first_number:
  "(case map_of (entries first) key of None \<Rightarrow> False | Some v \<Rightarrow> is_number v)
     = is_number (value_of first key)"
  by (simp add: value_of_def split: option.splits)

lemma summary_key_total:
  "summary_key grp first ''total_polygons'' row =
     (case sum_key ''total_polygons'' grp of
        Inl e \<Rightarrow> Inl e
      | Inr s \<Rightarrow> Inr (field_set ''total_polygons'' s row))"
  by (simp add: summary_key_def)

lemma summary_key_mean:
  assumes "key \<noteq> ''total_polygons''" "key \<noteq> ''lod_level''" "key \<noteq> ''tile_id''"
    "is_number (value_of first key)"
  shows "summary_key grp first key row =
     (case sum_key key grp of
        Inl e \<Rightarrow> Inl e
      | Inr s \<Rightarrow>
          (case py_truediv s (length grp) of
             Inl e \<Rightarrow> Inl e
           | Inr m \<Rightarrow> Inr (field_set key m row)))"
  unfolding summary_key_def first_number using assms by (simp only: if_False if_True simp_thms)

lemma summary_key_skip:
  assumes "key \<noteq> ''total_polygons''"
    "\<not> (key \<noteq> ''lod_level'' \<and> key \<noteq> ''tile_id'' \<and> is_number (value_of first key))"
  shows "summary_key grp first key row = Inr row"
  unfolding summary_key_def first_number using assms by (simp only: if_False simp_thms)

lemma summary_key_ok:
  assumes "grp \<noteq> []" and "summed first key \<longrightarrow> list_all is_number (column key grp)"
  shows "summary_key grp first key row =
           Inr (case summary_value grp first key of None \<Rightarrow> row | Some v \<Rightarrow> field_set key v row)"
proof -
  from assms(1) have n: "0 < length grp" by simp
  consider (total) "key = ''total_polygons''"
    | (mean) "key \<noteq> ''total_polygons''" "key \<noteq> ''lod_level''" "key \<noteq> ''tile_id''"
        "is_number (value_of first key)"
    | (skip) "key \<noteq> ''total_polygons''"
        "\<not> (key \<noteq> ''lod_level'' \<and> key \<noteq> ''tile_id'' \<and> is_number (value_of first key))"
    by blast
  then show ?thesis
  proof cases
    case total
    with assms(2) have "sum_key key grp = Inr (exact_sum (column key grp))"
      by (simp only: summed_def simp_thms sum_key_numbers)
    moreover have "summary_value grp first key = Some (exact_sum (column key grp))"
      using total by (simp only: summary_value_def simp_thms if_True)
    ultimately show ?thesis using summary_key_total[of grp first row] total by simp
  next
    case mean
    then have "summed first key" by (simp only: summed_def simp_thms)
    with assms(2) have "sum_key key grp = Inr (exact_sum (column key grp))"
      by (simp only: simp_thms sum_key_numbers)
    moreover have "summary_value grp first key =
        Some (PFloat (sum_list (map num_val (column key grp)) / real (length grp)))"
      using mean by (simp only: summary_value_def if_False if_True simp_thms)
    ultimately show ?thesis
      using summary_key_mean[OF mean, of grp row] mean_of_sum[OF n, of "column key grp"] by simp
  next
    case skip
    then have "summary_value grp first key = None"
      by (simp only: summary_value_def if_False simp_thms)
    with summary_key_skip[OF skip, of grp row] show ?thesis by simp
  qed
qed

lemma summary_key_fails:
  assumes "summed first key" and "\<not> list_all is_number (column key grp)"
  shows "\<exists>e. summary_key grp first key row = Inl e"
proof -
  from sum_key_fails[OF assms(2)] obtain e where e: "sum_key key grp = Inl e" by blast
  show ?thesis
  proof (cases "key = ''total_polygons''")
    case True
    with e summary_key_total[of grp first row] show ?thesis by simp
  next
    case False
    with assms(1) have "key \<noteq> ''lod_level''" "key \<noteq> ''tile_id''" "is_number (value_of first key)"
      by (simp_all only: summed_def simp_thms)
    from summary_key_mean[OF False this, of grp row] e show ?thesis by simp
  qed
qed

lemma summary_fold:
  assumes "grp \<noteq> []"
    and "list_all (\<lambda>key. summed first key \<longrightarrow> list_all is_number (column key grp)) ks"
  shows "\<exists>row'. fold_err (summary_key grp first) ks row = Inr row' \<and>
           lod_level row' = lod_level row \<and> tile_id row' = tile_id row \<and>
           set (map fst (entries row')) \<subseteq> set ks \<union> set (map fst (entries row)) \<and>
           (\<forall>key. map_of (entries row') key =
              (if key \<in> set ks \<and> summary_value grp first key \<noteq> None
               then summary_value grp first key else map_of (entries row) key))"
  using assms(2)
proof (induction ks arbitrary: row)
  case Nil
  then show ?case by simp
next
  case (Cons k ks)
  define row1 where "row1 = (case summary_value grp first k of None \<Rightarrow> row | Some v \<Rightarrow> field_set k v row)"
  from Cons.prems have k: "summed first k \<longrightarrow> list_all is_number (column k grp)"
    and ks: "list_all (\<lambda>key. summed first key \<longrightarrow> list_all is_number (column key grp)) ks"
    by simp_all
  have step: "summary_key grp first k row = Inr row1"
    unfolding row1_def using assms(1) k by (rule summary_key_ok)
  have id1: "lod_level row1 = lod_level row" "tile_id row1 = tile_id row"
    by (simp_all add: row1_def field_set_ident split: option.splits)
  have keys1: "set (map fst (entries row1)) \<subseteq> insert k (set (map fst (entries row)))"
    by (auto simp: row1_def field_set_keys simp del: set_map split: option.splits)
  have m1: "map_of (entries row1) key =
              (if key = k \<and> summary_value grp first k \<noteq> None
               then summary_value grp first k else map_of (entries row) key)" for key
    by (auto simp: row1_def field_set_map_of split: option.splits)
  from Cons.IH[OF ks, of row1] obtain row' where
    r: "fold_err (summary_key grp first) ks row1 = Inr row'"
       "lod_level row' = lod_level row1" "tile_id row' = tile_id row1"
       "set (map fst (entries row')) \<subseteq> set ks \<union> set (map fst (entries row1))"
       "\<And>key. map_of (entries row') key =
              (if key \<in> set ks \<and> summary_value grp first key \<noteq> None
               then summary_value grp first key else map_of (entries row1) key)"
    by blast
  have "fold_err (summary_key grp first) (k # ks) row = Inr row'" using step r(1) by simp
  moreover have "set (map fst (entries row')) \<subseteq> set (k # ks) \<union> set (map fst (entries row))"
    using r(4) keys1 by auto
  moreover have "map_of (entries row') key =
              (if key \<in> set (k # ks) \<and> summary_value grp first key \<noteq> None
               then summary_value grp first key else map_of (entries row) key)" for key
    unfolding r(5) m1 by auto
  ultimately show ?case using r(2,3) id1 by auto
qed

lemma summary_value_unsummed: "\<not> summed first key \<Longrightarrow> summary_value grp first key = None"
  by (auto simp: summary_value_def summed_def)

lemma summary_row_ok:
  assumes "grp \<noteq> []" "uniform_group grp"
  shows "\<exists>row. summary_row (lod, grp) = Inr row \<and> lod_level row = lod \<and> summary_of grp row"
proof -
  from assms(1) obtain first rest where grp: "grp = first # rest" by (cases grp) auto
  let ?ks = "map fst (entries first)"
  let ?row0 = "\<lparr> lod_level = lod, tile_id = int (length grp), entries = [] \<rparr>"
  from assms(2) grp
  have u: "list_all (\<lambda>key. summed first key \<longrightarrow> list_all is_number (column key grp)) ?ks"
    by (simp add: uniform_group_def)
  from summary_fold[OF assms(1) u, of ?row0] obtain row where
    r: "fold_err (summary_key grp first) ?ks ?row0 = Inr row"
       "lod_level row = lod" "tile_id row = int (length grp)"
       "set (map fst (entries row)) \<subseteq> set ?ks"
       "\<And>key. map_of (entries row) key =
              (if key \<in> set ?ks \<and> summary_value grp first key \<noteq> None
               then summary_value grp first key else None)"
    by auto
  have "summary_row (lod, grp) = Inr row" using r(1) grp by (simp add: summary_row_def)
  moreover have "summary_of grp row"
    unfolding summary_of_def grp list.case
    using r(3,4,5) grp by (auto simp: list_all_iff simp del: set_map)
  ultimately show ?thesis using r(2) by blast
qed

lemma fold_err_collect:
  "list_all2 (\<lambda>x y. f x = Inr y) xs ys \<Longrightarrow>
   fold_err (\<lambda>x acc. case f x of Inl e \<Rightarrow> Inl e | Inr y \<Rightarrow> Inr (acc @ [y])) xs acc = Inr (acc @ ys)"
  by (induction xs ys arbitrary: acc rule: list_all2_induct) simp_all

lemma list_all2_choose: "(\<And>x. x \<in> set xs \<Longrightarrow> \<exists>y. Q x y) \<Longrightarrow> \<exists>ys. list_all2 Q xs ys"
proof (induction xs)
  case Nil
  then show ?case by simp
next
  case (Cons x xs)
  then obtain y ys where "Q x y" "list_all2 Q xs ys" by (metis list.set_intros)
  then have "list_all2 Q (x # xs) (y # ys)" by simp
  then show ?case by blast
qed

lemma list_all2_key_eq: "list_all2 (\<lambda>x y. f y = x \<and> P x y) xs ys \<Longrightarrow> map f ys = xs"
  by (induction xs ys rule: list_all2_induct) simp_all

lemma list_all2_key_all:
  "list_all2 (\<lambda>x y. f y = x \<and> P x y) xs ys \<Longrightarrow> list_all (\<lambda>y. P (f y) y) ys"
  by (induction xs ys rule: list_all2_induct) simp_all

lemma writerows_Inr: "writerows names rows out = Inr out' \<Longrightarrow> out' = out @ map Row rows"
  unfolding writerows_def
proof (induction rows arbitrary: out)
  case Nil
  then show ?case by simp
next
  case (Cons r rows)
  from Cons.prems have "fold_err (\<lambda>r written. if set (row_keys r) \<subseteq> set names
                            then Inr (written @ [Row r]) else Inl ValueError) rows (out @ [Row r]) = Inr out'"
    by (simp split: if_splits)
  from Cons.IH[OF this] show ?case by simp
qed

lemma fold_err_fails:
  assumes "x \<in> set xs" and "\<And>s. \<exists>e. f x s = Inl e"
  shows "\<exists>e. fold_err f xs s = Inl e"
  using assms(1)
proof (induction xs arbitrary: s)
  case Nil
  then show ?case by simp
next
  case (Cons y ys)
  show ?case
  proof (cases "f y s")
    case (Inl e)
    then show ?thesis by simp
  next
    case (Inr s')
    with Cons.prems assms(2)[of s] have "x \<in> set ys" by auto
    from Cons.IH[OF this, of s'] Inr show ?thesis by simp
  qed
qed

lemma summary_row_fails:
  assumes "\<not> uniform_group grp"
  shows "\<exists>e. summary_row (lod, grp) = Inl e"
proof -
  from assms obtain first rest key where grp: "grp = first # rest"
    and key: "key \<in> set (map fst (entries first))" "summed first key"
      "\<not> list_all is_number (column key grp)"
    by (auto simp: uniform_group_def list_all_iff split: list.splits)
  have "\<exists>e. summary_key grp first key row = Inl e" for row
    using key(2,3) by (rule summary_key_fails)
  from fold_err_fails[OF key(1), of "summary_key grp first", OF this]
  show ?thesis by (simp add: summary_row_def grp)
qed

text \<open>
  On every other list the summary is not produced: the first value that is no number
  ends it in TypeError, or in KeyError when the key is absent.
\<close>

lemma summarize_fails:
  assumes "\<not> uniform results"
  shows "\<exists>e. summarize results = Inl e"
proof -
  from assms obtain r where r: "r \<in> set results" "\<not> uniform_group (group_of results (lod_level r))"
    by (auto simp: uniform_def list_all_iff)
  let ?lg = "(lod_level r, group_of results (lod_level r))"
  have "lod_level r \<in> set (sorted_list_of_set (lod_level ` set results))" using r(1) by simp
  then have mem: "?lg \<in> set (sort_key fst (lod_groups results))"
    unfolding sorted_groups by (simp add: image_iff) 
  from summary_row_fails[OF r(2)] obtain e where "summary_row ?lg = Inl e" by blast
  then have "\<exists>e. (case summary_row ?lg of Inl e \<Rightarrow> Inl e | Inr row \<Rightarrow> Inr (summary @ [row])) = Inl e"
    for summary :: "tile_result list" by simp
  from fold_err_fails[OF mem, of "\<lambda>lg summary. case summary_row lg of Inl e \<Rightarrow> Inl e | Inr row \<Rightarrow> Inr (summary @ [row])", OF this]
  show ?thesis by (simp add: summarize_def)
qed

lemmas run_report =
  summarize_def lod_groups_def group_add_def summary_row_def summary_key_def sum_key_def
  field_get_def field_set_def result_row_def

lemma summarize_example:
  "summarize example_results =
     Inr [\<lparr> lod_level = 0, tile_id = 1,
            entries = [(''screen_space_error'', PFloat 16), (''texture_utilization'', PFloat (1 / 2)),
                       (''total_polygons'', PInt 4)] \<rparr>,
          \<lparr> lod_level = 1, tile_id = 2,
            entries = [(''parent_id'', PFloat 1), (''screen_space_error'', PFloat 6),
                       (''texture_utilization'', PFloat (1 / 2)), (''total_polygons'', PInt 40)] \<rparr>]"
  by (simp add: run_report example_results_def)

lemma example_lods: "sorted_list_of_set (lod_level ` set example_results) = [0, 1]"
  by (simp add: example_results_def result_row_def sorted_list_of_set_insert_remove insert_commute)

lemma uniform_example: "uniform example_results"
  by (simp add: uniform_def uniform_group_def group_of_def summed_def column_def value_of_def
      example_results_def result_row_def)

text \<open>
  C6, as the code has it. On a list of results in which, within every LOD group, each value
  that is summed is a number (\<open>total_polygons\<close>, and every key other than \<open>lod_level\<close>
  and \<open>tile_id\<close> whose value in the first row of the group is a number), the summary has
  one row per LOD level in ascending order; the row of a level has the size of the group as
  its tile count, the sum over the group for \<open>total_polygons\<close>, the arithmetic mean over
  the group for every other key that holds a number in the first row, and no other key.
  The summary rows are what is written after the first header.
\<close>

theorem summary_rows:
  assumes "uniform results"
  shows "\<exists>summary. summarize results = Inr summary \<and>
           map lod_level summary = sorted_list_of_set (lod_level ` set results) \<and>
           list_all (\<lambda>row. summary_of (group_of results (lod_level row)) row) summary \<and>
           (\<forall>out. write_results_to_csv results = Inr out \<longrightarrow>
              (\<exists>names. out = Header names # map Row summary @ [Blank, Blank, Blank, Header names]
                                @ map Row results))"
proof -
  let ?L = "sorted_list_of_set (lod_level ` set results)"
  let ?Q = "\<lambda>k row. summary_row (k, group_of results k) = Inr row \<and> lod_level row = k \<and>
                     summary_of (group_of results k) row"
  have "\<exists>row. ?Q k row" if "k \<in> set ?L" for k
  proof -
    from that obtain r where r: "r \<in> set results" "lod_level r = k" by auto
    then have "group_of results k \<noteq> []" by (auto simp: group_of_def filter_empty_conv)
    moreover from assms r have "uniform_group (group_of results k)"
      by (auto simp: uniform_def list_all_iff)
    ultimately show ?thesis using summary_row_ok by blast
  qed
  then obtain summary where q: "list_all2 ?Q ?L summary" using list_all2_choose[of ?L ?Q] by blast
  then have "list_all2 (\<lambda>lg row. summary_row lg = Inr row)
               (map (\<lambda>k. (k, group_of results k)) ?L) summary"
    by (simp add: list_all2_map1 list_all2_mono)
  then have s: "summarize results = Inr summary"
    unfolding summarize_def sorted_groups using fold_err_collect[of summary_row _ summary "[]"] by simp
  from q have q': "list_all2 (\<lambda>k row. lod_level row = k \<and> summary_of (group_of results k) row) ?L summary"
    by (rule list_all2_mono) simp
  from q' have lods: "map lod_level summary = ?L" by (rule list_all2_key_eq)
  from q' have rows: "list_all (\<lambda>row. summary_of (group_of results (lod_level row)) row) summary"
    by (rule list_all2_key_all)
  have "\<exists>names. out = Header names # map Row summary @ [Blank, Blank, Blank, Header names]
                                @ map Row results"
    if w: "write_results_to_csv results = Inr out" for out
  proof -
    from w s obtain first rest written where
      res: "results = first # rest"
      and w1: "writerows (row_keys first) summary [Header (row_keys first)] = Inr written"
      and w2: "writerows (row_keys first) results
                 (written @ [Blank, Blank, Blank] @ [Header (row_keys first)]) = Inr out"
      by (auto simp: write_results_to_csv_def split: list.splits sum.splits)
    from writerows_Inr[OF w1] writerows_Inr[OF w2] show ?thesis by simp
  qed
  with s lods rows show ?thesis by blast
qed

theorem summary_rows_witness:
  "\<exists>summary. summarize example_results = Inr summary \<and>
      map lod_level summary = [0, 1] \<and>
      list_all (\<lambda>row. summary_of (group_of example_results (lod_level row)) row) summary"
proof -
  from summary_rows [OF uniform_example] obtain summary where
    "summarize example_results = Inr summary"
    "map lod_level summary = sorted_list_of_set (lod_level ` set example_results)"
    "list_all (\<lambda>row. summary_of (group_of example_results (lod_level row)) row) summary"
    by blast
  then show ?thesis by (simp add: example_lods)
qed

text \<open>
  Against C6 as stated: two results of one LOD level, the first with a screen space error
  of 16 and the second with none: the sum over the group adds \<^verbatim>\<open>None\<close> to a number, and no summary is
  produced.
\<close>

theorem mixed_group_raises:
  "summarize mixed_results = Inl TypeError \<and> write_results_to_csv mixed_results = Inl TypeError"
  by (simp add: run_report write_results_to_csv_def mixed_results_def)

lemma summarize_Nil: "summarize [] = Inr []"
  by (simp add: summarize_def lod_groups_def)

lemma keep_all_None: "list_all (\<lambda>r. r = None) results \<Longrightarrow>
   concat (map (\<lambda>r. case r of None \<Rightarrow> [] | Some v \<Rightarrow> [v]) results) = []"
  by (induction results) auto

text \<open>
  C3. With no result left after the absent ones are dropped, the summary is empty, and
  writing the report ends in IndexError at \<^verbatim>\<open>results[0].keys()\<close>.
\<close>

theorem report_of_nothing:
  assumes "list_all (\<lambda>r. r = None) results"
  shows "summarize [] = Inr [] \<and> write_results_to_csv [] = Inl IndexError \<and>
         report results = Inl IndexError"
  using assms by (simp add: report_def keep_all_None write_results_to_csv_def summarize_Nil)

theorem report_of_nothing_witness:
  "report [None, None] = Inl IndexError"
  using report_of_nothing [of "[None, None]"] by simp

end
